theory Spec2Isabelle
  imports Main "HOL-Library.Word"
begin

unbundle bit_operations_syntax

section \<open>The runtime of src/rt/rust.c as a state-passing model\<close>

text \<open>
  The runtime is single threaded C over a heap of records. The model keeps one machine
  state \<open>rt_state\<close>: the fields of \<open>struct rust_rt\<close> together with one typed heap
  per record type (procs, stack segments, ports, channels, progs), a word store for the
  memory that procs own (stack words and out-slots), the results the C allocator is going
  to return, and the stream of numbers the random generator is going to return.
  Every C function becomes a function from the state to \<open>error + result\<close>:
  \<^item> \<open>assert\<close> that fails is \<open>Inl Assert_failed\<close> (the process aborts);
  \<^item> \<open>exit(n)\<close> is \<open>Inl (Exit n msg)\<close>, \<open>msg\<close> being the diagnostic printed just before;
  \<^item> a dereference of a pointer that holds no live record of the expected type is
    \<open>Inl Invalid_pointer\<close>; a vector slot at or beyond \<open>alloc\<close> is
    \<open>Inl Out_of_bounds\<close>, the read of a slot never written is \<open>Inl Uninitialised\<close>.
  Pointer-sized values are 32-bit words (the ia32 target of the bootstrap compiler);
  the \<open>size_t\<close> counters of a vector are natural numbers below \<open>2 ^ 32\<close>, the
  wrap-around of \<open>alloc *= 2\<close>, \<open>init++\<close> and of the sum of two counters written out.
  Output written with printf is not part of the state; the one diagnostic a claim speaks
  of travels with \<open>Exit\<close>.
\<close>

type_synonym uintptr = "32 word"

datatype error =
    Assert_failed
  | Exit nat string
  | Invalid_pointer
  | Out_of_bounds
  | Uninitialised

definition bindE :: "error + 'a \<Rightarrow> ('a \<Rightarrow> error + 'b) \<Rightarrow> error + 'b" where
  "bindE m f = (case m of Inl e \<Rightarrow> Inl e | Inr x \<Rightarrow> f x)"

definition c_assert :: "bool \<Rightarrow> error + unit" where
  "c_assert b = (if b then Inr () else Inl Assert_failed)"

subsection \<open>Enumerations and records\<close>

datatype proc_state =
    proc_state_running
  | proc_state_calling_c
  | proc_state_exiting
  | proc_state_blocked_reading
  | proc_state_blocked_writing

datatype upcall =
    upcall_code_log_uint32
  | upcall_code_log_str
  | upcall_code_spawn
  | upcall_code_check_expr
  | upcall_code_malloc
  | upcall_code_free
  | upcall_code_new_port
  | upcall_code_del_port
  | upcall_code_new_chan
  | upcall_code_del_chan
  | upcall_code_send
  | upcall_code_recv
  | upcall_code_sched

definition PROC_MAX_UPCALL_ARGS :: nat where
  "PROC_MAX_UPCALL_ARGS = 8"

text \<open>
  \<open>struct ptr_vec\<close>. The buffer \<open>data\<close> is the partial map from slot index to the pointer
  last stored there: a slot that was never written, or that a resize did not carry
  over, holds nothing.
\<close>

record ptr_vec =
  alloc :: nat
  init :: nat
  data :: "nat \<Rightarrow> uintptr option"

text \<open>\<open>struct stk_seg\<close>; the bytes of \<open>data[]\<close> live in the word store.\<close>

record stk_seg =
  prev :: uintptr
  "next" :: uintptr
  valgrind_id :: nat
  stk_size :: nat
  stk_live :: nat

record rust_prog =
  init_code :: uintptr
  main_code :: uintptr
  fini_code :: uintptr

text \<open>
  \<open>struct rust_proc\<close>. The model has one runtime, so the back pointer \<open>rt\<close> is not a
  field: \<open>proc->rt\<close> is the state itself.
\<close>

record rust_proc =
  stk :: uintptr
  prog :: uintptr
  sp :: uintptr
  state :: proc_state
  idx :: nat
  refcnt :: nat
  upcall_code :: upcall
  upcall_args :: "nat \<Rightarrow> uintptr"
  mem_budget :: uintptr
  curr_mem :: uintptr
  tick_budget :: uintptr
  curr_ticks :: uintptr

record rust_port =
  live_refcnt :: nat
  weak_refcnt :: nat
  port_proc :: uintptr
  writers :: ptr_vec

record rust_chan =
  chan_port :: uintptr
  chan_proc :: uintptr
  queued :: bool
  chan_idx :: nat
  buf :: ptr_vec

text \<open>
  The machine state: \<open>struct rust_rt\<close> (\<open>rt_sp\<close>, the two proc vectors, \<open>rctx\<close>) and the
  heap. \<open>stks\<close> is an association list, which makes the walk of \<open>del_stk\<close> along a
  segment chain a terminating recursion; \<open>heap\<close> lists the pointers that the coming
  calls of malloc and realloc return (0 is a failed allocation, and so is the end of
  the list); \<open>rctx\<close> is the stream of values that the coming calls of \<open>rand\<close> return.
\<close>

record rt_state =
  rt_sp :: uintptr
  running_procs :: ptr_vec
  blocked_procs :: ptr_vec
  rctx :: "nat \<Rightarrow> nat"
  procs :: "uintptr \<Rightarrow> rust_proc option"
  stks :: "(uintptr \<times> stk_seg) list"
  ports :: "uintptr \<Rightarrow> rust_port option"
  chans :: "uintptr \<Rightarrow> rust_chan option"
  progs :: "uintptr \<Rightarrow> rust_prog option"
  blocks :: "uintptr \<Rightarrow> nat option"
  mem :: "uintptr \<Rightarrow> uintptr"
  heap :: "uintptr list"

subsection \<open>Allocation\<close>

text \<open>
  \<open>xalloc\<close>, \<open>xcalloc\<close> and \<open>xrealloc\<close> take the next pointer the allocator returns and
  exit with code 123 when it is null. The number of bytes asked for is not an argument
  here: what a block of that size can hold is the business of its user (see the vectors).
\<close>

definition xalloc :: "rt_state \<Rightarrow> error + (uintptr \<times> rt_state)" where
  "xalloc s =
     (case heap s of
        [] \<Rightarrow> Inl (Exit 123 ''rt: allocation failed, exiting'')
      | p # ps \<Rightarrow>
          if p = 0 then Inl (Exit 123 ''rt: allocation failed, exiting'')
          else Inr (p, s\<lparr>heap := ps\<rparr>))"

definition xrealloc :: "rt_state \<Rightarrow> error + (uintptr \<times> rt_state)" where
  "xrealloc s =
     (case heap s of
        [] \<Rightarrow> Inl (Exit 123 ''rt: reallocation failed, exiting'')
      | p # ps \<Rightarrow>
          if p = 0 then Inl (Exit 123 ''rt: reallocation failed, exiting'')
          else Inr (p, s\<lparr>heap := ps\<rparr>))"

subsection \<open>Pointer vectors\<close>

text \<open>
  A \<open>ptr_vec_t *\<close> in this program points at one of four places: the two proc vectors
  of the runtime, the writers of a port, or the buffer of a channel.

  The block of a vector is obtained with \<open>xalloc(v->alloc)\<close> and resized with
  \<open>xrealloc(v->data, v->alloc)\<close>: it has \<open>alloc\<close> bytes, the room of
  \<open>alloc / sizeof(void *)\<close> pointers, while the code indexes the slots \<open>0..alloc-1\<close>.
  A pointer stored in a slot beyond the block lands in the memory after it; the model
  lets the vector keep such a slot for as long as the block stays where it is. A resize
  carries over the bytes of the block and no more (\<open>carried\<close>): after it the slots
  beyond them hold nothing. The counters are \<open>size_t\<close>, 32 bits wide.
\<close>

definition sizeof_uintptr :: nat where
  "sizeof_uintptr = 4"

definition size_t :: "nat \<Rightarrow> nat" where
  "size_t n = n mod 2 ^ 32"

definition carried :: "nat \<Rightarrow> (nat \<Rightarrow> uintptr option) \<Rightarrow> (nat \<Rightarrow> uintptr option)" where
  "carried nbytes d = (\<lambda>i. if i < nbytes div sizeof_uintptr then d i else None)"

datatype vec_ref = Running_procs | Blocked_procs | Writers uintptr | Buf uintptr

definition vec_get :: "rt_state \<Rightarrow> vec_ref \<Rightarrow> error + ptr_vec" where
  "vec_get s v =
     (case v of
        Running_procs \<Rightarrow> Inr (running_procs s)
      | Blocked_procs \<Rightarrow> Inr (blocked_procs s)
      | Writers a \<Rightarrow> (case ports s a of None \<Rightarrow> Inl Invalid_pointer | Some po \<Rightarrow> Inr (writers po))
      | Buf a \<Rightarrow> (case chans s a of None \<Rightarrow> Inl Invalid_pointer | Some ch \<Rightarrow> Inr (buf ch)))"

definition vec_put :: "rt_state \<Rightarrow> vec_ref \<Rightarrow> ptr_vec \<Rightarrow> rt_state" where
  "vec_put s v vec =
     (case v of
        Running_procs \<Rightarrow> s\<lparr>running_procs := vec\<rparr>
      | Blocked_procs \<Rightarrow> s\<lparr>blocked_procs := vec\<rparr>
      | Writers a \<Rightarrow>
          (case ports s a of None \<Rightarrow> s
           | Some po \<Rightarrow> s\<lparr>ports := (ports s)(a \<mapsto> po\<lparr>writers := vec\<rparr>)\<rparr>)
      | Buf a \<Rightarrow>
          (case chans s a of None \<Rightarrow> s
           | Some ch \<Rightarrow> s\<lparr>chans := (chans s)(a \<mapsto> ch\<lparr>buf := vec\<rparr>)\<rparr>))"

definition vec_read :: "ptr_vec \<Rightarrow> nat \<Rightarrow> error + uintptr" where
  "vec_read vec i =
     (if i < alloc vec
      then (case data vec i of None \<Rightarrow> Inl Uninitialised | Some p \<Rightarrow> Inr p)
      else Inl Out_of_bounds)"

definition INIT_PTR_VEC_SZ :: nat where
  "INIT_PTR_VEC_SZ = 8"

definition init_ptr_vec :: "rt_state \<Rightarrow> vec_ref \<Rightarrow> error + rt_state" where
  "init_ptr_vec s v =
     bindE (vec_get s v) (\<lambda>vec.
     bindE (xalloc s) (\<lambda>(d, s1).
     Inr (vec_put s1 v (vec\<lparr>alloc := INIT_PTR_VEC_SZ, init := 0, data := (\<lambda>i. None)\<rparr>))))"

text \<open>After \<open>fini_ptr_vec\<close> the buffer is freed: no slot is left.\<close>

definition fini_ptr_vec :: "rt_state \<Rightarrow> vec_ref \<Rightarrow> error + rt_state" where
  "fini_ptr_vec s v =
     bindE (vec_get s v) (\<lambda>vec.
     bindE (c_assert (init vec = 0)) (\<lambda>_.
     Inr (vec_put s v (vec\<lparr>alloc := 0, data := (\<lambda>i. None)\<rparr>))))"

text \<open>
  \<open>ptr_vec_push\<close>: a full vector doubles \<open>alloc\<close> and moves to a block of that many
  bytes, which carries over the bytes of the old block (\<open>alloc\<close> of them before the
  doubling, or all of the new block when the doubling wrapped around).
\<close>

definition ptr_vec_push :: "rt_state \<Rightarrow> vec_ref \<Rightarrow> uintptr \<Rightarrow> error + rt_state" where
  "ptr_vec_push s v p =
     bindE (vec_get s v) (\<lambda>vec.
     bindE (if init vec = alloc vec
            then bindE (xrealloc s) (\<lambda>(d, s1).
                   Inr (s1, vec\<lparr>alloc := size_t (alloc vec * 2),
                              data := carried (min (alloc vec) (size_t (alloc vec * 2)))
                                        (data vec)\<rparr>))
            else Inr (s, vec)) (\<lambda>(s1, vec1).
     if init vec1 < alloc vec1
     then Inr (vec_put s1 v (vec1\<lparr>data := (data vec1)(init vec1 \<mapsto> p),
                                    init := size_t (init vec1 + 1)\<rparr>))
     else Inl Out_of_bounds))"

text \<open>\<open>ptr_vec_trim\<close>: the halved vector moves to a block of \<open>alloc / 2\<close> bytes.\<close>

definition ptr_vec_trim :: "rt_state \<Rightarrow> vec_ref \<Rightarrow> nat \<Rightarrow> error + rt_state" where
  "ptr_vec_trim s v n =
     bindE (vec_get s v) (\<lambda>vec.
     if n \<le> alloc vec div 4 \<and> alloc vec div 2 \<ge> INIT_PTR_VEC_SZ
     then bindE (c_assert (alloc vec div 2 \<ge> init vec)) (\<lambda>_.
          bindE (xrealloc s) (\<lambda>(d, s1).
          Inr (vec_put s1 v (vec\<lparr>alloc := alloc vec div 2,
                 data := carried (alloc vec div 2) (data vec)\<rparr>))))
     else Inr s)"

definition ptr_vec_swapdel :: "rt_state \<Rightarrow> vec_ref \<Rightarrow> nat \<Rightarrow> error + rt_state" where
  "ptr_vec_swapdel s v i =
     bindE (vec_get s v) (\<lambda>vec.
     bindE (c_assert (init vec > 0)) (\<lambda>_.
     bindE (c_assert (i < init vec)) (\<lambda>_.
     if init vec - 1 > 0
     then (if init vec - 1 < alloc vec \<and> i < alloc vec
           then Inr (vec_put s v (vec\<lparr>init := init vec - 1,
                       data := (data vec)(i := data vec (init vec - 1))\<rparr>))
           else Inl Out_of_bounds)
     else Inr (vec_put s v (vec\<lparr>init := init vec - 1\<rparr>)))))"

text \<open>
  The swap-delete of a proc vector also repairs the \<open>idx\<close> of the proc that moved into
  the hole; that of a writer vector does the same for channels.
\<close>

definition proc_vec_swapdel :: "rt_state \<Rightarrow> vec_ref \<Rightarrow> uintptr \<Rightarrow> error + rt_state" where
  "proc_vec_swapdel s v proc =
     bindE (c_assert (proc \<noteq> 0)) (\<lambda>_.
     (case procs s proc of None \<Rightarrow> Inl Invalid_pointer | Some pr \<Rightarrow>
     bindE (vec_get s v) (\<lambda>vec.
     bindE (vec_read vec (idx pr)) (\<lambda>q.
     bindE (c_assert (q = proc)) (\<lambda>_.
     bindE (ptr_vec_swapdel s v (idx pr)) (\<lambda>s1.
     bindE (vec_get s1 v) (\<lambda>vec1.
     if init vec1 > 0
     then bindE (vec_read vec1 (idx pr)) (\<lambda>pnew.
          (case procs s1 pnew of None \<Rightarrow> Inl Invalid_pointer | Some prn \<Rightarrow>
           Inr (s1\<lparr>procs := (procs s1)(pnew \<mapsto> prn\<lparr>idx := idx pr\<rparr>)\<rparr>)))
     else Inr s1)))))))"

definition chan_vec_swapdel :: "rt_state \<Rightarrow> vec_ref \<Rightarrow> uintptr \<Rightarrow> error + rt_state" where
  "chan_vec_swapdel s v chan =
     bindE (c_assert (chan \<noteq> 0)) (\<lambda>_.
     (case chans s chan of None \<Rightarrow> Inl Invalid_pointer | Some ch \<Rightarrow>
     bindE (vec_get s v) (\<lambda>vec.
     bindE (vec_read vec (chan_idx ch)) (\<lambda>q.
     bindE (c_assert (q = chan)) (\<lambda>_.
     bindE (ptr_vec_swapdel s v (chan_idx ch)) (\<lambda>s1.
     bindE (vec_get s1 v) (\<lambda>vec1.
     if init vec1 > 0
     then bindE (vec_read vec1 (chan_idx ch)) (\<lambda>cnew.
          (case chans s1 cnew of None \<Rightarrow> Inl Invalid_pointer | Some chn \<Rightarrow>
           Inr (s1\<lparr>chans := (chans s1)(cnew \<mapsto> chn\<lparr>chan_idx := chan_idx ch\<rparr>)\<rparr>)))
     else Inr s1)))))))"

subsection \<open>Stacks\<close>

definition init_stk_bytes :: nat where
  "init_stk_bytes = 65536"

text \<open>
  \<open>new_stk\<close>: the header is zeroed, \<open>size\<close> set; the stack is registered with the memory
  debugger, whose handle is 0 when the program does not run under it.
\<close>

definition new_stk :: "rt_state \<Rightarrow> error + (uintptr \<times> rt_state)" where
  "new_stk s =
     bindE (xalloc s) (\<lambda>(sk, s1).
     Inr (sk, s1\<lparr>stks := (sk, \<lparr>prev = 0, next = 0, valgrind_id = 0,
                               stk_size = init_stk_bytes, stk_live = 0\<rparr>) # stks s1\<rparr>))"

text \<open>
  \<open>del_stk\<close> frees the chain from \<open>stk\<close> along \<open>next\<close> (a do-while: the first segment is
  read before any test). A freed segment is no longer in \<open>stks\<close>, so the walk ends.
\<close>

function del_stk :: "rt_state \<Rightarrow> uintptr \<Rightarrow> error + rt_state" where
  "del_stk s sk =
     (case map_of (stks s) sk of
        None \<Rightarrow> Inl Invalid_pointer
      | Some seg \<Rightarrow>
          if next seg \<noteq> 0
          then del_stk (s\<lparr>stks := filter (\<lambda>kv. fst kv \<noteq> sk) (stks s)\<rparr>) (next seg)
          else Inr (s\<lparr>stks := filter (\<lambda>kv. fst kv \<noteq> sk) (stks s)\<rparr>))"
  by pat_completeness auto
termination
proof (relation "measure (\<lambda>(s, sk). length (stks s))")
  show "wf (measure (\<lambda>(s, sk). length (stks s)))" by simp
next
  fix s :: rt_state and sk :: uintptr and seg :: stk_seg
  assume "map_of (stks s) sk = Some seg"
  then have "(sk, seg) \<in> set (stks s)" by (rule map_of_SomeD)
  then have "length (filter (\<lambda>kv. fst kv \<noteq> sk) (stks s)) < length (stks s)"
    by (intro length_filter_less [where x = "(sk, seg)"]) auto
  then show "((s\<lparr>stks := filter (\<lambda>kv. fst kv \<noteq> sk) (stks s)\<rparr>, next seg), (s, sk))
      \<in> measure (\<lambda>(s, sk). length (stks s))"
    by simp
qed

declare del_stk.simps [simp del]

subsection \<open>Processes\<close>

definition n_callee_saves :: nat where
  "n_callee_saves = 4"

text \<open>
  The address of \<open>stk->data[i]\<close>: on ia32 the header of a segment (two pointers, an
  unsigned and two \<open>size_t\<close>) is 20 bytes.
\<close>

definition stk_data :: "uintptr \<Rightarrow> nat \<Rightarrow> uintptr" where
  "stk_data sk i = sk + 20 + of_nat i"

definition zero_vec :: ptr_vec where
  "zero_vec = \<lparr>alloc = 0, init = 0, data = (\<lambda>i. None)\<rparr>"

definition zero_proc :: rust_proc where
  "zero_proc = \<lparr>stk = 0, prog = 0, sp = 0, state = proc_state_running, idx = 0, refcnt = 0,
     upcall_code = upcall_code_log_uint32, upcall_args = (\<lambda>i. 0),
     mem_budget = 0, curr_mem = 0, tick_budget = 0, curr_ticks = 0\<rparr>"

definition zero_port :: rust_port where
  "zero_port = \<lparr>live_refcnt = 0, weak_refcnt = 0, port_proc = 0, writers = zero_vec\<rparr>"

definition zero_chan :: rust_chan where
  "zero_chan = \<lparr>chan_port = 0, chan_proc = 0, queued = False, chan_idx = 0, buf = zero_vec\<rparr>"

text \<open>The loop \<open>for (j = 0; j < n_callee_saves; ++j) *sp-- = 0\<close> of \<open>new_proc\<close>.\<close>

fun seed_callee_saves :: "nat \<Rightarrow> uintptr \<Rightarrow> (uintptr \<Rightarrow> uintptr) \<Rightarrow> (uintptr \<Rightarrow> uintptr)" where
  "seed_callee_saves 0 p m = m"
| "seed_callee_saves (Suc j) p m = seed_callee_saves j (p - of_nat sizeof_uintptr) (m(p := 0))"

definition new_proc :: "rt_state \<Rightarrow> uintptr \<Rightarrow> error + (uintptr \<times> rt_state)" where
  "new_proc s pg =
     bindE (xalloc s) (\<lambda>(proc, s1).
     (case progs s1 pg of None \<Rightarrow> Inl Invalid_pointer | Some prg \<Rightarrow>
     bindE (new_stk (s1\<lparr>procs := (procs s1)(proc \<mapsto> zero_proc)\<rparr>)) (\<lambda>(sk, s2).
     let tos = init_stk_bytes - sizeof_uintptr;
         sp0 = stk_data sk tos AND NOT 0xf;
         w = of_nat sizeof_uintptr;
         m1 = (mem s2)(sp0 := proc);
         m2 = m1(sp0 - w := 0);
         m3 = m2(sp0 - 2 * w := main_code prg);
         m4 = m3(sp0 - 3 * w := main_code prg);
         m5 = seed_callee_saves n_callee_saves (sp0 - 4 * w) m4
     in (case procs s2 proc of None \<Rightarrow> Inl Invalid_pointer | Some pr \<Rightarrow>
         Inr (proc, s2\<lparr>procs := (procs s2)(proc \<mapsto>
                pr\<lparr>prog := pg, stk := sk,
                   sp := sp0 - of_nat ((3 + n_callee_saves) * sizeof_uintptr),
                   state := proc_state_running\<rparr>),
              mem := m5\<rparr>)))))"

definition del_proc :: "rt_state \<Rightarrow> uintptr \<Rightarrow> error + rt_state" where
  "del_proc s proc =
     (case procs s proc of None \<Rightarrow> Inl Invalid_pointer | Some pr \<Rightarrow>
     bindE (c_assert (refcnt pr = 0)) (\<lambda>_.
     bindE (del_stk s (stk pr)) (\<lambda>s1.
     Inr (s1\<lparr>procs := (procs s1)(proc := None)\<rparr>))))"

definition spawn_proc :: "rt_state \<Rightarrow> uintptr \<Rightarrow> error + (uintptr \<times> rt_state)" where
  "spawn_proc s pg = new_proc s pg"

fun get_state_vec :: "proc_state \<Rightarrow> vec_ref" where
  "get_state_vec proc_state_running = Running_procs"
| "get_state_vec proc_state_calling_c = Running_procs"
| "get_state_vec proc_state_exiting = Running_procs"
| "get_state_vec proc_state_blocked_reading = Blocked_procs"
| "get_state_vec proc_state_blocked_writing = Blocked_procs"

definition get_proc_vec :: "rt_state \<Rightarrow> uintptr \<Rightarrow> error + vec_ref" where
  "get_proc_vec s proc =
     (case procs s proc of None \<Rightarrow> Inl Invalid_pointer | Some pr \<Rightarrow> Inr (get_state_vec (state pr)))"

definition add_proc_to_state_vec :: "rt_state \<Rightarrow> uintptr \<Rightarrow> error + rt_state" where
  "add_proc_to_state_vec s proc =
     bindE (get_proc_vec s proc) (\<lambda>v.
     bindE (vec_get s v) (\<lambda>vec.
     (case procs s proc of None \<Rightarrow> Inl Invalid_pointer | Some pr \<Rightarrow>
      ptr_vec_push (s\<lparr>procs := (procs s)(proc \<mapsto> pr\<lparr>idx := init vec\<rparr>)\<rparr>) v proc)))"

definition n_live_procs :: "rt_state \<Rightarrow> nat" where
  "n_live_procs s = size_t (init (running_procs s) + init (blocked_procs s))"

definition remove_proc_from_state_vec :: "rt_state \<Rightarrow> uintptr \<Rightarrow> error + rt_state" where
  "remove_proc_from_state_vec s proc =
     bindE (get_proc_vec s proc) (\<lambda>v.
     bindE (vec_get s v) (\<lambda>vec.
     (case procs s proc of None \<Rightarrow> Inl Invalid_pointer | Some pr \<Rightarrow>
     bindE (vec_read vec (idx pr)) (\<lambda>q.
     bindE (c_assert (q = proc)) (\<lambda>_.
     bindE (proc_vec_swapdel s v proc) (\<lambda>s1.
     ptr_vec_trim s1 v (n_live_procs s1)))))))"

definition proc_state_transition ::
    "rt_state \<Rightarrow> uintptr \<Rightarrow> proc_state \<Rightarrow> proc_state \<Rightarrow> error + rt_state" where
  "proc_state_transition s proc src dst =
     (case procs s proc of None \<Rightarrow> Inl Invalid_pointer | Some pr \<Rightarrow>
     bindE (c_assert (state pr = src)) (\<lambda>_.
     bindE (remove_proc_from_state_vec s proc) (\<lambda>s1.
     (case procs s1 proc of None \<Rightarrow> Inl Invalid_pointer | Some pr1 \<Rightarrow>
      add_proc_to_state_vec (s1\<lparr>procs := (procs s1)(proc \<mapsto> pr1\<lparr>state := dst\<rparr>)\<rparr>) proc))))"

definition exit_proc :: "rt_state \<Rightarrow> uintptr \<Rightarrow> error + rt_state" where
  "exit_proc s proc =
     bindE (c_assert (proc \<noteq> 0)) (\<lambda>_.
     bindE (c_assert (n_live_procs s > 0)) (\<lambda>_.
     bindE (get_proc_vec s proc) (\<lambda>v.
     bindE (proc_vec_swapdel s v proc) (\<lambda>s1.
     bindE (del_proc s1 proc) (\<lambda>s2.
     ptr_vec_trim s2 v (n_live_procs s2))))))"

text \<open>\<open>rand\<close> takes the head of the stream.\<close>

definition rand :: "rt_state \<Rightarrow> nat \<times> rt_state" where
  "rand s = (rctx s 0, s\<lparr>rctx := (\<lambda>n. rctx s (Suc n))\<rparr>)"

definition sched :: "rt_state \<Rightarrow> error + (uintptr \<times> rt_state)" where
  "sched s =
     bindE (c_assert (n_live_procs s > 0)) (\<lambda>_.
     if init (running_procs s) > 0
     then (case rand s of (i, s1) \<Rightarrow>
           bindE (vec_read (running_procs s1) (i mod init (running_procs s1))) (\<lambda>p. Inr (p, s1)))
     else Inl (Exit 1 ''rt: no schedulable processes''))"

subsection \<open>Runtime\<close>

text \<open>
  \<open>new_rt\<close>: the zeroed runtime record, its two vectors initialised. \<open>randinit\<close> leaves
  the stream of random numbers as the state holds it.
\<close>

definition new_rt :: "rt_state \<Rightarrow> error + rt_state" where
  "new_rt s =
     bindE (xalloc s) (\<lambda>(rt, s1).
     bindE (init_ptr_vec (s1\<lparr>rt_sp := 0, running_procs := zero_vec, blocked_procs := zero_vec\<rparr>)
              Running_procs) (\<lambda>s2.
     init_ptr_vec s2 Blocked_procs))"

lemma bindE_simps [simp]:
  "bindE (Inl e) f = Inl e"
  "bindE (Inr x) f = f x"
  by (simp_all add: bindE_def)

lemma bindE_cong [fundef_cong]:
  "m = m' \<Longrightarrow> (\<And>x. m' = Inr x \<Longrightarrow> f x = f' x) \<Longrightarrow> bindE m f = bindE m' f'"
  by (cases m') (simp_all add: bindE_def)

lemma bindE_eq_Inr:
  "bindE m f = Inr y \<longleftrightarrow> (\<exists>x. m = Inr x \<and> f x = Inr y)"
  by (cases m) simp_all

lemma c_assert_eq_Inr [simp]: "c_assert b = Inr u \<longleftrightarrow> b"
  by (simp add: c_assert_def)

lemma c_assert_True [simp]: "c_assert True = Inr ()"
  by (simp add: c_assert_def)

lemma c_assert_False [simp]: "c_assert False = Inl Assert_failed"
  by (simp add: c_assert_def)

lemma del_stk_frame:
  "del_stk s sk = Inr s' \<Longrightarrow> \<exists>st. s' = s\<lparr>stks := st\<rparr>"
proof (induction s sk rule: del_stk.induct)
  case (1 s sk)
  let ?s1 = "s\<lparr>stks := filter (\<lambda>kv. fst kv \<noteq> sk) (stks s)\<rparr>"
  show ?case
  proof (cases "map_of (stks s) sk")
    case None
    with "1.prems" show ?thesis by (simp add: del_stk.simps [of s sk])
  next
    case (Some seg)
    show ?thesis
    proof (cases "next seg = 0")
      case True
      with Some "1.prems" have "s' = ?s1" by (simp add: del_stk.simps [of s sk])
      then show ?thesis ..
    next
      case False
      from Some False "1.prems" have "del_stk ?s1 (next seg) = Inr s'"
        by (simp add: del_stk.simps [of s sk])
      with "1.IH" [OF Some False] obtain st where "s' = ?s1\<lparr>stks := st\<rparr>" by blast
      then have "s' = s\<lparr>stks := st\<rparr>" by simp
      then show ?thesis ..
    qed
  qed
qed

lemma del_proc_frame:
  assumes "del_proc s proc = Inr s'"
  shows "\<exists>st. s' = s\<lparr>stks := st, procs := (procs s)(proc := None)\<rparr>"
proof -
  from assms obtain pr :: rust_proc and s1 where d: "del_stk s (stk pr) = Inr s1"
    and s': "s' = s1\<lparr>procs := (procs s1)(proc := None)\<rparr>"
    unfolding del_proc_def by (cases "procs s proc") (auto simp: bindE_eq_Inr)
  from del_stk_frame [OF d] obtain st where "s1 = s\<lparr>stks := st\<rparr>" ..
  with s' have "s' = s\<lparr>stks := st, procs := (procs s)(proc := None)\<rparr>" by simp
  then show ?thesis ..
qed

lemma vec_get_del_proc:
  assumes "del_proc s proc = Inr s'"
  shows "vec_get s' v = vec_get s v"
proof -
  from del_proc_frame [OF assms] obtain st
    where "s' = s\<lparr>stks := st, procs := (procs s)(proc := None)\<rparr>" ..
  then show ?thesis by (simp add: vec_get_def split: vec_ref.splits)
qed

lemma vec_get_vec_put_same:
  "vec_get s v = Inr vec \<Longrightarrow> vec_get (vec_put s v vec') v = Inr vec'"
  by (auto simp: vec_get_def vec_put_def split: vec_ref.splits option.splits)

text \<open>
  \<open>del_all_procs\<close>: \<open>while (v->init) del_proc(v->data[v->init--])\<close>. The slot is read
  at the old value of \<open>init\<close>, which is then decremented, before \<open>del_proc\<close> runs.
\<close>

function del_all_procs :: "rt_state \<Rightarrow> vec_ref \<Rightarrow> error + rt_state" where
  "del_all_procs s v =
     (case vec_get s v of
        Inl e \<Rightarrow> Inl e
      | Inr vec \<Rightarrow>
          if init vec \<noteq> 0
          then (case vec_read vec (init vec) of
                  Inl e \<Rightarrow> Inl e
                | Inr p \<Rightarrow>
                    (case del_proc (vec_put s v (vec\<lparr>init := init vec - 1\<rparr>)) p of
                       Inl e \<Rightarrow> Inl e
                     | Inr s1 \<Rightarrow> del_all_procs s1 v))
          else Inr s)"
  by pat_completeness auto
termination
proof (relation "measure (\<lambda>(s, v). case vec_get s v of Inl e \<Rightarrow> 0 | Inr vec \<Rightarrow> init vec)")
  show "wf (measure (\<lambda>(s, v). case vec_get s v of Inl e \<Rightarrow> 0 | Inr vec \<Rightarrow> init vec))"
    by simp
next
  fix s :: rt_state and v :: vec_ref and vec :: ptr_vec and p :: uintptr and s1 :: rt_state
  assume g: "vec_get s v = Inr vec" and n: "init vec \<noteq> 0"
    and d: "del_proc (vec_put s v (vec\<lparr>init := init vec - 1\<rparr>)) p = Inr s1"
  have "vec_get s1 v = Inr (vec\<lparr>init := init vec - 1\<rparr>)"
    using vec_get_del_proc [OF d] vec_get_vec_put_same [OF g] by simp
  with g n show "((s1, v), (s, v))
      \<in> measure (\<lambda>(s, v). case vec_get s v of Inl e \<Rightarrow> 0 | Inr vec \<Rightarrow> init vec)"
    by simp
qed

declare del_all_procs.simps [simp del]

text \<open>The indices of the slots that the loop of \<open>del_all_procs\<close> reads, in order.\<close>

function del_all_procs_reads :: "rt_state \<Rightarrow> vec_ref \<Rightarrow> nat list" where
  "del_all_procs_reads s v =
     (case vec_get s v of
        Inl e \<Rightarrow> []
      | Inr vec \<Rightarrow>
          if init vec \<noteq> 0
          then init vec #
               (case vec_read vec (init vec) of
                  Inl e \<Rightarrow> []
                | Inr p \<Rightarrow>
                    (case del_proc (vec_put s v (vec\<lparr>init := init vec - 1\<rparr>)) p of
                       Inl e \<Rightarrow> []
                     | Inr s1 \<Rightarrow> del_all_procs_reads s1 v))
          else [])"
  by pat_completeness auto
termination
proof (relation "measure (\<lambda>(s, v). case vec_get s v of Inl e \<Rightarrow> 0 | Inr vec \<Rightarrow> init vec)")
  show "wf (measure (\<lambda>(s, v). case vec_get s v of Inl e \<Rightarrow> 0 | Inr vec \<Rightarrow> init vec))"
    by simp
next
  fix s :: rt_state and v :: vec_ref and vec :: ptr_vec and p :: uintptr and s1 :: rt_state
  assume g: "vec_get s v = Inr vec" and n: "init vec \<noteq> 0"
    and d: "del_proc (vec_put s v (vec\<lparr>init := init vec - 1\<rparr>)) p = Inr s1"
  have "vec_get s1 v = Inr (vec\<lparr>init := init vec - 1\<rparr>)"
    using vec_get_del_proc [OF d] vec_get_vec_put_same [OF g] by simp
  with g n show "((s1, v), (s, v))
      \<in> measure (\<lambda>(s, v). case vec_get s v of Inl e \<Rightarrow> 0 | Inr vec \<Rightarrow> init vec)"
    by simp
qed

declare del_all_procs_reads.simps [simp del]

definition del_rt :: "rt_state \<Rightarrow> error + rt_state" where
  "del_rt s =
     bindE (del_all_procs s Running_procs) (\<lambda>s1.
     bindE (del_all_procs s1 Blocked_procs) (\<lambda>s2.
     bindE (fini_ptr_vec s2 Running_procs) (\<lambda>s3.
     fini_ptr_vec s3 Blocked_procs)))"

subsection \<open>Upcalls\<close>

definition upcall_new_port :: "rt_state \<Rightarrow> uintptr \<Rightarrow> error + (uintptr \<times> rt_state)" where
  "upcall_new_port s proc =
     bindE (xalloc s) (\<lambda>(port, s1).
     bindE (init_ptr_vec (s1\<lparr>ports := (ports s1)(port \<mapsto> zero_port\<lparr>port_proc := proc\<rparr>)\<rparr>)
              (Writers port)) (\<lambda>s2.
     Inr (port, s2)))"

definition upcall_del_port :: "rt_state \<Rightarrow> uintptr \<Rightarrow> error + rt_state" where
  "upcall_del_port s port =
     (case ports s port of None \<Rightarrow> Inl Invalid_pointer | Some po \<Rightarrow>
     bindE (c_assert (live_refcnt po = 0)) (\<lambda>_.
     bindE (fini_ptr_vec s (Writers port)) (\<lambda>s1.
     Inr (s1\<lparr>ports := (ports s1)(port := None)\<rparr>))))"

definition upcall_new_chan :: "rt_state \<Rightarrow> uintptr \<Rightarrow> uintptr \<Rightarrow> error + (uintptr \<times> rt_state)" where
  "upcall_new_chan s proc port =
     bindE (c_assert (port \<noteq> 0)) (\<lambda>_.
     bindE (xalloc s) (\<lambda>(chan, s1).
     bindE (init_ptr_vec
              (s1\<lparr>chans := (chans s1)(chan \<mapsto> zero_chan\<lparr>chan_proc := proc, chan_port := port\<rparr>)\<rparr>)
              (Buf chan)) (\<lambda>s2.
     Inr (chan, s2))))"

definition upcall_del_chan :: "rt_state \<Rightarrow> uintptr \<Rightarrow> error + rt_state" where
  "upcall_del_chan s chan =
     bindE (c_assert (chan \<noteq> 0)) (\<lambda>_.
     bindE (fini_ptr_vec s (Buf chan)) (\<lambda>s1.
     Inr (s1\<lparr>chans := (chans s1)(chan := None)\<rparr>)))"

definition attempt_rendezvous ::
    "rt_state \<Rightarrow> uintptr \<Rightarrow> uintptr \<Rightarrow> error + (bool \<times> rt_state)" where
  "attempt_rendezvous s src dst =
     bindE (c_assert (src \<noteq> 0)) (\<lambda>_.
     bindE (c_assert (dst \<noteq> 0)) (\<lambda>_.
     (case procs s src of None \<Rightarrow> Inl Invalid_pointer | Some ps \<Rightarrow>
     (case procs s dst of None \<Rightarrow> Inl Invalid_pointer | Some pd \<Rightarrow>
      if state ps = proc_state_blocked_writing \<and> state pd = proc_state_blocked_reading
      then let sval = upcall_args ps 1; dptr = upcall_args pd 0 in
           bindE (proc_state_transition (s\<lparr>mem := (mem s)(dptr := sval)\<rparr>) src
                    proc_state_blocked_writing proc_state_running) (\<lambda>s1.
           bindE (proc_state_transition s1 dst
                    proc_state_blocked_reading proc_state_running) (\<lambda>s2.
           Inr (True, s2)))
      else Inr (False, s)))))"

definition upcall_send :: "rt_state \<Rightarrow> uintptr \<Rightarrow> uintptr \<Rightarrow> error + rt_state" where
  "upcall_send s src chan =
     bindE (c_assert (chan \<noteq> 0)) (\<lambda>_.
     (case chans s chan of None \<Rightarrow> Inl Invalid_pointer | Some ch \<Rightarrow>
     bindE (c_assert (chan_port ch \<noteq> 0)) (\<lambda>_.
     let s1 = s\<lparr>chans := (chans s)(chan \<mapsto> ch\<lparr>chan_proc := src\<rparr>)\<rparr>; port = chan_port ch in
     (case ports s1 port of None \<Rightarrow> Inl Invalid_pointer | Some po \<Rightarrow>
      if port_proc po \<noteq> 0
      then bindE (proc_state_transition s1 src
                    proc_state_calling_c proc_state_blocked_writing) (\<lambda>s2.
           (case ports s2 port of None \<Rightarrow> Inl Invalid_pointer | Some po2 \<Rightarrow>
           bindE (attempt_rendezvous s2 src (port_proc po2)) (\<lambda>(r, s3).
           if r then Inr s3
           else (case chans s3 chan of None \<Rightarrow> Inl Invalid_pointer | Some ch3 \<Rightarrow>
                 if queued ch3 then Inr s3
                 else bindE (vec_get s3 (Writers port)) (\<lambda>w.
                      bindE (ptr_vec_push
                               (s3\<lparr>chans := (chans s3)(chan \<mapsto> ch3\<lparr>chan_idx := init w\<rparr>)\<rparr>)
                               (Writers port) chan) (\<lambda>s4.
                      (case chans s4 chan of None \<Rightarrow> Inl Invalid_pointer | Some ch4 \<Rightarrow>
                       Inr (s4\<lparr>chans := (chans s4)(chan \<mapsto> ch4\<lparr>queued := True\<rparr>)\<rparr>))))))))
      else Inr s1))))"

definition upcall_recv :: "rt_state \<Rightarrow> uintptr \<Rightarrow> uintptr \<Rightarrow> error + rt_state" where
  "upcall_recv s dst port =
     bindE (c_assert (port \<noteq> 0)) (\<lambda>_.
     (case ports s port of None \<Rightarrow> Inl Invalid_pointer | Some po \<Rightarrow>
     bindE (c_assert (port_proc po \<noteq> 0)) (\<lambda>_.
     bindE (c_assert (dst \<noteq> 0)) (\<lambda>_.
     bindE (c_assert (port_proc po = dst)) (\<lambda>_.
     bindE (proc_state_transition s dst
              proc_state_calling_c proc_state_blocked_reading) (\<lambda>s1.
     bindE (vec_get s1 (Writers port)) (\<lambda>w.
     if init w > 0
     then (case rand s1 of (i, s2) \<Rightarrow>
          bindE (vec_read w (i mod init w)) (\<lambda>schan.
          (case chans s2 schan of None \<Rightarrow> Inl Invalid_pointer | Some sch \<Rightarrow>
          bindE (c_assert (chan_idx sch = i mod init w)) (\<lambda>_.
          bindE (attempt_rendezvous s2 (chan_proc sch) dst) (\<lambda>(r, s3).
          if r
          then bindE (chan_vec_swapdel s3 (Writers port) schan) (\<lambda>s4.
               bindE (vec_get s4 (Writers port)) (\<lambda>w4.
               bindE (ptr_vec_trim s4 (Writers port) (init w4)) (\<lambda>s5.
               (case chans s5 schan of None \<Rightarrow> Inl Invalid_pointer | Some sch5 \<Rightarrow>
                Inr (s5\<lparr>chans := (chans s5)(schan \<mapsto> sch5\<lparr>queued := False\<rparr>)\<rparr>)))))
          else Inr s3)))))
     else Inr s1)))))))"

definition upcall_check_expr :: "rt_state \<Rightarrow> uintptr \<Rightarrow> uintptr \<Rightarrow> error + rt_state" where
  "upcall_check_expr s proc i =
     (if i = 0
      then (case procs s proc of None \<Rightarrow> Inl Invalid_pointer | Some pr \<Rightarrow>
            Inr (s\<lparr>procs := (procs s)(proc \<mapsto> pr\<lparr>state := proc_state_exiting\<rparr>)\<rparr>))
      else Inr s)"

definition upcall_malloc :: "rt_state \<Rightarrow> uintptr \<Rightarrow> nat \<Rightarrow> error + (uintptr \<times> rt_state)" where
  "upcall_malloc s proc nbytes =
     bindE (xalloc s) (\<lambda>(p, s1). Inr (p, s1\<lparr>blocks := (blocks s1)(p \<mapsto> nbytes)\<rparr>))"

text \<open>
  \<open>upcall_free\<close> hands the pointer of the proc to \<open>free\<close>, which releases whatever
  block starts there; a pointer that is neither null nor the start of a live block is
  an invalid free.
\<close>

definition upcall_free :: "rt_state \<Rightarrow> uintptr \<Rightarrow> uintptr \<Rightarrow> error + rt_state" where
  "upcall_free s proc p =
     (if p = 0 then Inr s
      else if procs s p = None \<and> ports s p = None \<and> chans s p = None
              \<and> map_of (stks s) p = None \<and> blocks s p = None
      then Inl Invalid_pointer
      else Inr (s\<lparr>procs := (procs s)(p := None), ports := (ports s)(p := None),
                  chans := (chans s)(p := None), blocks := (blocks s)(p := None),
                  stks := filter (\<lambda>kv. fst kv \<noteq> p) (stks s)\<rparr>))"

definition handle_upcall :: "rt_state \<Rightarrow> uintptr \<Rightarrow> error + rt_state" where
  "handle_upcall s proc =
     (case procs s proc of None \<Rightarrow> Inl Invalid_pointer | Some pr \<Rightarrow>
     let args = upcall_args pr in
     bindE (case upcall_code pr of
              upcall_code_log_uint32 \<Rightarrow> Inr s
            | upcall_code_log_str \<Rightarrow> Inr s
            | upcall_code_spawn \<Rightarrow>
                bindE (spawn_proc s (args 1)) (\<lambda>(p, s1). Inr (s1\<lparr>mem := (mem s1)(args 0 := p)\<rparr>))
            | upcall_code_sched \<Rightarrow> add_proc_to_state_vec s (args 0)
            | upcall_code_check_expr \<Rightarrow> upcall_check_expr s proc (args 0)
            | upcall_code_malloc \<Rightarrow>
                bindE (upcall_malloc s proc (unat (args 1))) (\<lambda>(p, s1).
                  Inr (s1\<lparr>mem := (mem s1)(args 0 := p)\<rparr>))
            | upcall_code_free \<Rightarrow> upcall_free s proc (args 0)
            | upcall_code_new_port \<Rightarrow>
                bindE (upcall_new_port s proc) (\<lambda>(p, s1). Inr (s1\<lparr>mem := (mem s1)(args 0 := p)\<rparr>))
            | upcall_code_del_port \<Rightarrow> upcall_del_port s (args 0)
            | upcall_code_new_chan \<Rightarrow>
                bindE (upcall_new_chan s proc (args 1)) (\<lambda>(p, s1).
                  Inr (s1\<lparr>mem := (mem s1)(args 0 := p)\<rparr>))
            | upcall_code_del_chan \<Rightarrow> upcall_del_chan s (args 1)
            | upcall_code_send \<Rightarrow> upcall_send s proc (args 0)
            | upcall_code_recv \<Rightarrow> upcall_recv s proc (args 1)) (\<lambda>s1.
     (case procs s1 proc of None \<Rightarrow> Inl Invalid_pointer | Some pr1 \<Rightarrow>
      Inr (s1\<lparr>procs := (procs s1)(proc \<mapsto> pr1\<lparr>upcall_code := upcall_code_log_uint32\<rparr>)\<rparr>))))"

subsection \<open>The driver\<close>

text \<open>
  The trampoline \<open>c_to_proc_glue\<close> is not part of the runtime. What it leaves behind when
  the proc comes back is a \<open>yield\<close>: the state, the upcall code and arguments and the
  saved stack pointer the proc wrote into its record, and the words it stored in memory.
\<close>

record yield =
  y_state :: proc_state
  y_code :: upcall
  y_args :: "nat \<Rightarrow> uintptr"
  y_sp :: uintptr
  y_mem :: "(uintptr \<times> uintptr) list"

definition c_to_proc_glue :: "rt_state \<Rightarrow> uintptr \<Rightarrow> yield \<Rightarrow> error + rt_state" where
  "c_to_proc_glue s proc y =
     (case procs s proc of None \<Rightarrow> Inl Invalid_pointer | Some pr \<Rightarrow>
      Inr (s\<lparr>procs := (procs s)(proc \<mapsto>
               pr\<lparr>state := y_state y, upcall_code := y_code y, upcall_args := y_args y,
                  sp := y_sp y\<rparr>),
             mem := fold (\<lambda>(a, w) m. m(a := w)) (y_mem y) (mem s)\<rparr>))"

text \<open>
  One turn of the \<open>while (1)\<close> of \<open>rust_start\<close> in two parts. \<open>run_proc\<close> is the
  first: mark \<open>proc\<close> running, enter it, and dispatch on the state it came back with.
  \<open>loop_body\<close> adds the second: pick the next proc, or leave the loop (\<open>None\<close>) when
  no proc is live.
\<close>

definition run_proc :: "rt_state \<Rightarrow> uintptr \<Rightarrow> yield \<Rightarrow> error + rt_state" where
  "run_proc s proc y =
     (case procs s proc of None \<Rightarrow> Inl Invalid_pointer | Some pr \<Rightarrow>
     bindE (c_to_proc_glue (s\<lparr>procs := (procs s)(proc \<mapsto> pr\<lparr>state := proc_state_running\<rparr>)\<rparr>)
              proc y) (\<lambda>s1.
     (case procs s1 proc of None \<Rightarrow> Inl Invalid_pointer | Some pr1 \<Rightarrow>
      (case state pr1 of
         proc_state_running \<Rightarrow> Inr s1
       | proc_state_calling_c \<Rightarrow>
           bindE (handle_upcall s1 proc) (\<lambda>s2.
           (case procs s2 proc of None \<Rightarrow> Inl Invalid_pointer | Some pr2 \<Rightarrow>
            if state pr2 = proc_state_calling_c
            then Inr (s2\<lparr>procs := (procs s2)(proc \<mapsto> pr2\<lparr>state := proc_state_running\<rparr>)\<rparr>)
            else Inr s2))
       | proc_state_exiting \<Rightarrow> exit_proc s1 proc
       | proc_state_blocked_reading \<Rightarrow> Inl Assert_failed
       | proc_state_blocked_writing \<Rightarrow> Inl Assert_failed))))"

definition loop_body :: "rt_state \<Rightarrow> uintptr \<Rightarrow> yield \<Rightarrow> error + (uintptr option \<times> rt_state)" where
  "loop_body s proc y =
     bindE (run_proc s proc y) (\<lambda>s3.
     if n_live_procs s3 > 0
     then bindE (sched s3) (\<lambda>(p, s4). Inr (Some p, s4))
     else Inr (None, s3))"

text \<open>The part of \<open>rust_start\<close> before the loop: the runtime, the root proc, the first pick.\<close>

definition rust_start_enter :: "rt_state \<Rightarrow> uintptr \<Rightarrow> error + (uintptr \<times> rt_state)" where
  "rust_start_enter s pg =
     (case progs s pg of None \<Rightarrow> Inl Invalid_pointer | Some prg \<Rightarrow>
     bindE (new_rt s) (\<lambda>s1.
     bindE (spawn_proc s1 pg) (\<lambda>(p, s2).
     bindE (add_proc_to_state_vec s2 p) (\<lambda>s3.
     sched s3))))"

text \<open>
  The loop over the yields of the procs that run. \<open>Returned 0\<close> is the return of
  \<open>rust_start\<close> after \<open>del_rt\<close>; with no yield left the loop is still turning.
\<close>

datatype outcome = Returned nat rt_state | Turning uintptr rt_state

fun main_loop :: "yield list \<Rightarrow> rt_state \<Rightarrow> uintptr \<Rightarrow> error + outcome" where
  "main_loop [] s proc = Inr (Turning proc s)"
| "main_loop (y # ys) s proc =
     (case loop_body s proc y of
        Inl e \<Rightarrow> Inl e
      | Inr (None, s1) \<Rightarrow> bindE (del_rt s1) (\<lambda>s2. Inr (Returned 0 s2))
      | Inr (Some p, s1) \<Rightarrow> main_loop ys s1 p)"

definition rust_start :: "rt_state \<Rightarrow> uintptr \<Rightarrow> yield list \<Rightarrow> error + outcome" where
  "rust_start s pg ys = bindE (rust_start_enter s pg) (\<lambda>(p, s1). main_loop ys s1 p)"

section \<open>Predicates and example states for the properties\<close>

subsection \<open>Runs of vector operations\<close>

text \<open>A run of pushes, trims and swap-deletes on one vector.\<close>

datatype vec_op = Push uintptr | Trim nat | Swapdel nat

fun apply_ops :: "rt_state \<Rightarrow> vec_ref \<Rightarrow> vec_op list \<Rightarrow> error + rt_state" where
  "apply_ops s v [] = Inr s"
| "apply_ops s v (Push p # ops) = bindE (ptr_vec_push s v p) (\<lambda>s1. apply_ops s1 v ops)"
| "apply_ops s v (Trim n # ops) = bindE (ptr_vec_trim s v n) (\<lambda>s1. apply_ops s1 v ops)"
| "apply_ops s v (Swapdel i # ops) = bindE (ptr_vec_swapdel s v i) (\<lambda>s1. apply_ops s1 v ops)"

subsection \<open>A machine before \<open>rust_start\<close>\<close>

text \<open>
  An example machine: nothing allocated, one prog at address 0x1000, an allocator that
  is going to hand out twelve blocks, a random generator that returns 0 every time.
\<close>

definition boot_state :: rt_state where
  "boot_state = \<lparr>rt_sp = 0, running_procs = zero_vec, blocked_procs = zero_vec,
     rctx = (\<lambda>n. 0), procs = (\<lambda>a. None), stks = [], ports = (\<lambda>a. None), chans = (\<lambda>a. None),
     progs = (\<lambda>a. if a = 0x1000 then Some \<lparr>init_code = 0x1010, main_code = 0x1020, fini_code = 0x1030\<rparr>
                    else None),
     blocks = (\<lambda>a. None), mem = (\<lambda>a. 0),
     heap = [0x10000, 0x20000, 0x30000, 0x40000, 0x50000, 0x60000, 0x70000, 0x80000,
             0x90000, 0xa0000, 0xb0000, 0xc0000]\<rparr>"

definition fresh_vec :: ptr_vec where
  "fresh_vec = \<lparr>alloc = 8, init = 0, data = (\<lambda>i. None)\<rparr>"

text \<open>
  A proc that comes back with an upcall of two arguments, and the turns of several
  procs one after the other (the picks of the scheduler left aside).
\<close>

definition upcall_yield :: "upcall \<Rightarrow> uintptr \<Rightarrow> uintptr \<Rightarrow> yield" where
  "upcall_yield c a0 a1 = \<lparr>y_state = proc_state_calling_c, y_code = c,
     y_args = (\<lambda>i. if i = 0 then a0 else if i = 1 then a1 else 0), y_sp = 0x5ff00, y_mem = []\<rparr>"

fun run_procs :: "rt_state \<Rightarrow> (uintptr \<times> yield) list \<Rightarrow> error + rt_state" where
  "run_procs s [] = Inr s"
| "run_procs s ((p, y) # ys) = bindE (run_proc s p y) (\<lambda>s1. run_procs s1 ys)"

text \<open>The machine when \<open>rust_start\<close> reaches its loop: the root proc is at 0x40000.\<close>

definition started :: rt_state where
  "started = (case rust_start_enter boot_state 0x1000 of Inl e \<Rightarrow> boot_state | Inr (p, s) \<Rightarrow> s)"

text \<open>A machine with a port that no proc owns, and a proc about to send on it.\<close>

definition dead_port_state :: rt_state where
  "dead_port_state = boot_state\<lparr>
     procs := (\<lambda>a. if a = 0x40000
                    then Some (zero_proc\<lparr>state := proc_state_calling_c,
                           upcall_code := upcall_code_send,
                           upcall_args := (\<lambda>i. if i = 0 then 0x70000 else if i = 1 then 42 else 0)\<rparr>)
                    else None),
     running_procs := fresh_vec\<lparr>init := 1, data := (\<lambda>i. if i = 0 then Some 0x40000 else None)\<rparr>,
     blocked_procs := fresh_vec,
     ports := (\<lambda>a. if a = 0x60000 then Some (zero_port\<lparr>writers := fresh_vec\<rparr>) else None),
     chans := (\<lambda>a. if a = 0x70000 then Some (zero_chan\<lparr>chan_port := 0x60000, buf := fresh_vec\<rparr>)
                    else None)\<rparr>"

subsection \<open>Vectors whose live slots are filled\<close>


definition vec_elems :: "ptr_vec \<Rightarrow> uintptr set" where
  "vec_elems vec = {p. \<exists>i<init vec. data vec i = Some p}"

text \<open>
  The turns in which the root proc (0x40000) of the example machine creates a port
  (0x60000) and a channel on it (0x80000), spawns a child (0xa0000) and schedules it.
\<close>

definition chan_setup :: "(uintptr \<times> yield) list" where
  "chan_setup =
     [(0x40000, upcall_yield upcall_code_new_port 0x5ff00 0),
      (0x40000, upcall_yield upcall_code_new_chan 0x5ff04 0x60000),
      (0x40000, upcall_yield upcall_code_spawn 0x5ff08 0x1000),
      (0x40000, upcall_yield upcall_code_sched 0xa0000 0)]"

subsection \<open>The invariant of the scheduler vectors\<close>

text \<open>
  \<open>slots_ok s v\<close>: the vector \<open>v\<close> still has the block \<open>init_ptr_vec\<close> gave it (it was
  never resized), and each of its live slots \<open>i\<close> holds a live proc whose \<open>idx\<close> is \<open>i\<close>
  and whose state belongs to \<open>v\<close>. \<open>proc_vec_inv\<close> asks this of both scheduler vectors
  (and that no proc lives at the null address). \<open>sched_elems\<close> are the procs registered
  in one of the two vectors.
\<close>

definition slots_ok :: "rt_state \<Rightarrow> vec_ref \<Rightarrow> bool" where
  "slots_ok s v \<longleftrightarrow>
     (case vec_get s v of
        Inl e \<Rightarrow> False
      | Inr vec \<Rightarrow>
          init vec \<le> alloc vec \<and> alloc vec = INIT_PTR_VEC_SZ
          \<and> (\<forall>i<init vec. case data vec i of
                 None \<Rightarrow> False
               | Some p \<Rightarrow> (case procs s p of
                    None \<Rightarrow> False
                  | Some pr \<Rightarrow> idx pr = i \<and> get_state_vec (state pr) = v)))"

definition proc_vec_inv :: "rt_state \<Rightarrow> bool" where
  "proc_vec_inv s \<longleftrightarrow>
     procs s 0 = None \<and> slots_ok s Running_procs \<and> slots_ok s Blocked_procs"

definition sched_elems :: "rt_state \<Rightarrow> uintptr set" where
  "sched_elems s = vec_elems (running_procs s) \<union> vec_elems (blocked_procs s)"

text \<open>A call returns (no assert fails, no exit, no stray pointer) a result that satisfies \<open>Q\<close>.\<close>

definition returns :: "error + 'a \<Rightarrow> ('a \<Rightarrow> bool) \<Rightarrow> bool" where
  "returns r Q \<longleftrightarrow> (case r of Inr x \<Rightarrow> Q x | Inl e \<Rightarrow> False)"

text \<open>Two proc records that differ at most in \<open>idx\<close>.\<close>

definition same_but_idx :: "rust_proc option \<Rightarrow> rust_proc option \<Rightarrow> bool" where
  "same_but_idx a b \<longleftrightarrow>
     (case a of None \<Rightarrow> b = None | Some x \<Rightarrow> (\<exists>k. b = Some (x\<lparr>idx := k\<rparr>)))"

text \<open>What the scheduler operations never touch.\<close>

definition sched_frame :: "rt_state \<Rightarrow> rt_state \<Rightarrow> bool" where
  "sched_frame s s' \<longleftrightarrow>
     mem s' = mem s \<and> ports s' = ports s \<and> chans s' = chans s \<and> progs s' = progs s
     \<and> stks s' = stks s \<and> blocks s' = blocks s \<and> rctx s' = rctx s \<and> rt_sp s' = rt_sp s"

text \<open>The two scheduler vectors by reference.\<close>

definition is_sched :: "vec_ref \<Rightarrow> bool" where
  "is_sched v \<longleftrightarrow> v = Running_procs \<or> v = Blocked_procs"

definition sched_vec :: "rt_state \<Rightarrow> vec_ref \<Rightarrow> ptr_vec" where
  "sched_vec s v = (if v = Running_procs then running_procs s else blocked_procs s)"

text \<open>
  The counts of the two scheduler vectors after one proc has left the vector \<open>a\<close> and
  one has entered the vector \<open>b\<close> (\<open>None\<close>: no proc has).
\<close>

definition moved :: "rt_state \<Rightarrow> vec_ref option \<Rightarrow> vec_ref option \<Rightarrow> rt_state \<Rightarrow> bool" where
  "moved s a b s' \<longleftrightarrow>
     (\<forall>u. is_sched u \<longrightarrow>
        init (sched_vec s' u) + (if a = Some u then 1 else 0)
          = init (sched_vec s u) + (if b = Some u then 1 else 0))"

text \<open>
  The writers of a port are in order when the vector was never resized and each live slot
  \<open>i\<close> holds a live channel whose \<open>idx\<close> is \<open>i\<close>.
\<close>

definition writers_ok :: "rt_state \<Rightarrow> uintptr \<Rightarrow> bool" where
  "writers_ok s P \<longleftrightarrow>
     (case ports s P of
        None \<Rightarrow> False
      | Some po \<Rightarrow>
          init (writers po) \<le> alloc (writers po) \<and> alloc (writers po) = INIT_PTR_VEC_SZ
          \<and> (\<forall>i<init (writers po). case data (writers po) i of
                 None \<Rightarrow> False
               | Some c \<Rightarrow> (case chans s c of None \<Rightarrow> False | Some ch \<Rightarrow> chan_idx ch = i)))"

text \<open>What the operations on ports and channels never touch.\<close>

definition procs_frame :: "rt_state \<Rightarrow> rt_state \<Rightarrow> bool" where
  "procs_frame s s' \<longleftrightarrow>
     procs s' = procs s \<and> running_procs s' = running_procs s
     \<and> blocked_procs s' = blocked_procs s \<and> mem s' = mem s"

text \<open>
  The two ends of a turn of \<open>run_proc\<close> in which the proc comes back with an upcall: the
  state when the proc has written its request, and the return from the dispatcher.
\<close>

definition enter_proc :: "rt_state \<Rightarrow> uintptr \<Rightarrow> rust_proc \<Rightarrow> yield \<Rightarrow> rt_state" where
  "enter_proc s p pr y =
     s\<lparr>procs := (procs s)(p \<mapsto> pr\<lparr>state := y_state y, upcall_code := y_code y,
                                   upcall_args := y_args y, sp := y_sp y\<rparr>),
       mem := fold (\<lambda>(a, w) m. m(a := w)) (y_mem y) (mem s)\<rparr>"

definition upcall_return :: "rt_state \<Rightarrow> uintptr \<Rightarrow> error + rt_state" where
  "upcall_return s p =
     (case procs s p of None \<Rightarrow> Inl Invalid_pointer | Some pr \<Rightarrow>
      Inr (s\<lparr>procs := (procs s)(p \<mapsto> pr\<lparr>upcall_code := upcall_code_log_uint32,
             state := (if state pr = proc_state_calling_c then proc_state_running
                       else state pr)\<rparr>)\<rparr>))"


subsection \<open>A machine with room for nine procs\<close>

text \<open>
  The example machine with an allocator that is going to hand out twenty-eight blocks, and
  the state when \<open>rust_start\<close> reaches its loop on it (the root proc is at 0x40000).
\<close>

definition wide_boot :: rt_state where
  "wide_boot = boot_state\<lparr>heap :=
     [0x10000, 0x20000, 0x30000, 0x40000, 0x50000, 0x60000, 0x70000, 0x80000, 0x90000,
      0xa0000, 0xb0000, 0xc0000, 0xd0000, 0xe0000, 0xf0000, 0x100000, 0x110000, 0x120000,
      0x130000, 0x140000, 0x150000, 0x160000, 0x170000, 0x180000, 0x190000, 0x1a0000,
      0x1b0000, 0x1c0000]\<rparr>"

definition wide_started :: rt_state where
  "wide_started = (case rust_start_enter wide_boot 0x1000 of Inl e \<Rightarrow> wide_boot | Inr (p, s) \<Rightarrow> s)"

text \<open>The two turns in which the proc \<open>p\<close> spawns a child and schedules it (it is at \<open>c\<close>).\<close>

definition spawn_sched :: "uintptr \<Rightarrow> uintptr \<Rightarrow> (uintptr \<times> yield) list" where
  "spawn_sched p c =
     [(p, upcall_yield upcall_code_spawn 0x5ff08 0x1000), (p, upcall_yield upcall_code_sched c 0)]"

text \<open>The root proc spawns and schedules seven children: eight procs are running.\<close>

definition seven_children :: "(uintptr \<times> yield) list" where
  "seven_children =
     spawn_sched 0x40000 0x60000 @ spawn_sched 0x40000 0x80000 @ spawn_sched 0x40000 0xa0000
     @ spawn_sched 0x40000 0xc0000 @ spawn_sched 0x40000 0xe0000 @ spawn_sched 0x40000 0x100000
     @ spawn_sched 0x40000 0x120000"

text \<open>
  The root proc creates a port (0x60000) and a channel on it (0x80000), spawns and
  schedules seven children (the first is at 0xa0000) and blocks in a receive on the port
  with out-slot 0x5ff0c; the first child spawns and schedules an eighth (0x180000). Seven
  procs are running and the root is blocked reading. \<open>crowded_ready\<close> is that machine in
  the middle of a send by the eighth child, which has just been moved to blocked writing
  with the value 0xdeadbeef.
\<close>

definition crowded_setup :: "(uintptr \<times> yield) list" where
  "crowded_setup =
     [(0x40000, upcall_yield upcall_code_new_port 0x5ff00 0),
      (0x40000, upcall_yield upcall_code_new_chan 0x5ff04 0x60000)]
     @ spawn_sched 0x40000 0xa0000 @ spawn_sched 0x40000 0xc0000 @ spawn_sched 0x40000 0xe0000
     @ spawn_sched 0x40000 0x100000 @ spawn_sched 0x40000 0x120000 @ spawn_sched 0x40000 0x140000
     @ spawn_sched 0x40000 0x160000
     @ [(0x40000, upcall_yield upcall_code_recv 0x5ff0c 0x60000)]
     @ spawn_sched 0xa0000 0x180000"

definition crowded_ready :: "error + rt_state" where
  "crowded_ready =
     bindE (run_procs wide_started crowded_setup) (\<lambda>s.
     bindE (c_to_proc_glue s 0x180000 (upcall_yield upcall_code_send 0x80000 0xdeadbeef)) (\<lambda>s1.
     proc_state_transition s1 0x180000 proc_state_calling_c proc_state_blocked_writing))"


section \<open>Basic facts about the vector operations\<close>

lemma vec_get_heap [simp]: "vec_get (s\<lparr>heap := h\<rparr>) v = vec_get s v"
  by (simp add: vec_get_def split: vec_ref.splits)

lemma xrealloc_Inr: "xrealloc s = Inr (d, s1) \<Longrightarrow> s1 = s\<lparr>heap := tl (heap s)\<rparr>"
  by (auto simp: xrealloc_def split: list.splits if_splits)

lemma xalloc_Inr:
  "xalloc s = Inr (d, s1) \<Longrightarrow> d \<noteq> 0 \<and> heap s = d # tl (heap s) \<and> s1 = s\<lparr>heap := tl (heap s)\<rparr>"
  by (auto simp: xalloc_def split: list.splits if_splits)

lemma size_t_small [simp]: "n < 2 ^ 32 \<Longrightarrow> size_t n = n"
  by (simp add: size_t_def)

text \<open>Whatever a vector operation does, it writes one vector and takes blocks from the allocator.\<close>

lemma vec_put_heap_same: "\<exists>h vec'. vec_put s v vec = vec_put (s\<lparr>heap := h\<rparr>) v vec'"
proof -
  have "vec_put s v vec = vec_put (s\<lparr>heap := heap s\<rparr>) v vec" by simp
  then show ?thesis by blast
qed

lemma ptr_vec_push_Inr:
  assumes "ptr_vec_push s v p = Inr s'"
  shows "\<exists>h vec'. s' = vec_put (s\<lparr>heap := h\<rparr>) v vec'"
  using assms unfolding ptr_vec_push_def
  by (auto simp: bindE_eq_Inr vec_put_heap_same split: if_splits dest!: xrealloc_Inr)

lemma ptr_vec_trim_Inr:
  assumes "ptr_vec_trim s v n = Inr s'"
  shows "s' = s \<or> (\<exists>h vec'. s' = vec_put (s\<lparr>heap := h\<rparr>) v vec')"
  using assms unfolding ptr_vec_trim_def
  by (auto simp: bindE_eq_Inr split: if_splits dest!: xrealloc_Inr)

lemma ptr_vec_swapdel_Inr:
  fixes vec :: ptr_vec
  assumes "ptr_vec_swapdel s v i = Inr s'" and "vec_get s v = Inr vec"
  shows "i < init vec \<and>
     s' = vec_put s v (vec\<lparr>init := init vec - 1,
            data := (if init vec - 1 > 0 then (data vec)(i := data vec (init vec - 1)) else data vec)\<rparr>)
     \<and> (init vec - 1 > 0 \<longrightarrow> init vec - 1 < alloc vec \<and> i < alloc vec)"
  using assms unfolding ptr_vec_swapdel_def
  by (auto simp: bindE_eq_Inr split: if_splits)

text \<open>
  A push into a vector that is not full and a trim of a vector that is not to be halved
  leave the block where it is.
\<close>

lemma ptr_vec_push_room:
  fixes vec :: ptr_vec
  assumes "vec_get s v = Inr vec" and "init vec < alloc vec" and "alloc vec \<le> 2 ^ 31"
  shows "ptr_vec_push s v p
       = Inr (vec_put s v (vec\<lparr>data := (data vec)(init vec \<mapsto> p), init := init vec + 1\<rparr>))"
proof -
  from assms(2,3) have "init vec + 1 < 2 ^ 32" by simp
  then have "size_t (init vec + 1) = init vec + 1" by (rule size_t_small)
  with assms(1,2) show ?thesis by (simp add: ptr_vec_push_def)
qed

lemma ptr_vec_trim_same:
  fixes vec :: ptr_vec
  assumes "vec_get s v = Inr vec" and "alloc vec div 2 < INIT_PTR_VEC_SZ"
  shows "ptr_vec_trim s v n = Inr s"
  using assms by (simp add: ptr_vec_trim_def)

section \<open>Evaluating the model on an example machine\<close>

lemma seed_callee_saves_4:
  "seed_callee_saves 4 p m = m(p := 0, p - 4 := 0, p - 8 := 0, p - 12 := 0)"
proof -
  have s: "\<And>j p m. seed_callee_saves (Suc j) p m = seed_callee_saves j (p - 4) (m(p := 0))"
    by (simp add: sizeof_uintptr_def)
  have "seed_callee_saves (Suc (Suc (Suc (Suc 0)))) p m
      = m(p := 0, p - 4 := 0, p - 4 - 4 := 0, p - 4 - 4 - 4 := 0)"
    by (simp only: s seed_callee_saves.simps(1))
  moreover have n4: "(4::nat) = Suc (Suc (Suc (Suc 0)))" by simp
  ultimately show ?thesis unfolding n4 by simp
qed

lemmas vec_eval = ptr_vec_push_def ptr_vec_trim_def ptr_vec_swapdel_def vec_get_def vec_put_def
  xrealloc_def xalloc_def INIT_PTR_VEC_SZ_def size_t_def carried_def

lemmas rt_eval = vec_eval bindE_def c_assert_def vec_read_def init_ptr_vec_def fini_ptr_vec_def
  proc_vec_swapdel_def chan_vec_swapdel_def new_stk_def init_stk_bytes_def n_callee_saves_def
  sizeof_uintptr_def stk_data_def zero_vec_def zero_proc_def zero_port_def zero_chan_def
  new_proc_def del_proc_def spawn_proc_def get_proc_vec_def add_proc_to_state_vec_def
  n_live_procs_def remove_proc_from_state_vec_def proc_state_transition_def exit_proc_def
  rand_def sched_def new_rt_def del_rt_def upcall_new_port_def upcall_del_port_def
  upcall_new_chan_def upcall_del_chan_def attempt_rendezvous_def upcall_send_def upcall_recv_def
  upcall_check_expr_def upcall_malloc_def upcall_free_def handle_upcall_def c_to_proc_glue_def
  run_proc_def loop_body_def rust_start_enter_def rust_start_def upcall_yield_def boot_state_def
  fresh_vec_def started_def seed_callee_saves_4 Let_def


section \<open>C9: the capacity policy of a vector\<close>

text \<open>
  The counters of a vector follow the policy: a push that comes back has added one element
  and doubled \<open>alloc\<close> exactly when \<open>init = alloc\<close>; a trim that comes back has kept \<open>init\<close>
  and halved \<open>alloc\<close> exactly when the live count it is given is at most \<open>alloc / 4\<close> and
  \<open>alloc / 2 \<ge> 8\<close>.
\<close>

lemma ptr_vec_push_counters:
  fixes vec :: ptr_vec
  assumes g: "vec_get s v = Inr vec" and le: "init vec \<le> alloc vec" and a: "alloc vec < 2 ^ 32"
    and p: "ptr_vec_push s v p = Inr s'"
  shows "\<exists>vec'. vec_get s' v = Inr vec' \<and> init vec' = init vec + 1
           \<and> alloc vec' = (if init vec = alloc vec then 2 * alloc vec else alloc vec)"
proof (cases "init vec = alloc vec")
  case True
  from p g True obtain d s1 where x: "xrealloc s = Inr (d, s1)"
    and lt: "alloc vec < size_t (alloc vec * 2)"
    by (auto simp: ptr_vec_push_def bindE_def split: sum.splits if_splits)
  have nw: "alloc vec * 2 < 2 ^ 32"
  proof (rule ccontr)
    assume "\<not> alloc vec * 2 < 2 ^ 32"
    then have "size_t (alloc vec * 2) = alloc vec * 2 - 2 ^ 32"
      using a by (simp add: size_t_def mod_if)
    with lt a show False by simp
  qed
  have g1: "vec_get s1 v = Inr vec" by (subst xrealloc_Inr [OF x]) (simp add: g)
  from p g True x nw a show ?thesis
    by (auto simp: ptr_vec_push_def bindE_def vec_get_vec_put_same [OF g1] split: if_splits)
next
  case False
  with le have lt: "init vec < alloc vec" by simp
  with a have "init vec + 1 < 2 ^ 32" by simp
  with p g False lt show ?thesis
    by (auto simp: ptr_vec_push_def bindE_def vec_get_vec_put_same [OF g])
qed

lemma ptr_vec_trim_counters:
  fixes vec :: ptr_vec
  assumes g: "vec_get s v = Inr vec" and p: "ptr_vec_trim s v n = Inr s'"
  shows "\<exists>vec'. vec_get s' v = Inr vec' \<and> init vec' = init vec
           \<and> alloc vec' = (if n \<le> alloc vec div 4 \<and> 8 \<le> alloc vec div 2
                           then alloc vec div 2 else alloc vec)"
proof (cases "n \<le> alloc vec div 4 \<and> 8 \<le> alloc vec div 2")
  case True
  from p g True obtain d s1 where x: "xrealloc s = Inr (d, s1)"
    by (auto simp: ptr_vec_trim_def bindE_def INIT_PTR_VEC_SZ_def c_assert_def
        split: sum.splits if_splits)
  have g1: "vec_get s1 v = Inr vec" by (subst xrealloc_Inr [OF x]) (simp add: g)
  from p g True x show ?thesis
    by (auto simp: ptr_vec_trim_def bindE_def INIT_PTR_VEC_SZ_def c_assert_def
        vec_get_vec_put_same [OF g1] split: if_splits)
next
  case False
  with p g show ?thesis
    by (auto simp: ptr_vec_trim_def bindE_def INIT_PTR_VEC_SZ_def)
qed

text \<open>
  The block behind the counters is \<open>alloc\<close> bytes, not \<open>alloc\<close> pointers. Nine pushes on a
  fresh vector: the ninth finds \<open>init = alloc = 8\<close>, doubles \<open>alloc\<close> to 16 and moves the
  vector to a block of 16 bytes, which carries over the 8 bytes of the old block. The
  elements of the slots 2 to 7 are lost, and the block has room for four pointers while
  \<open>init\<close> is 9.
\<close>

lemma nine_pushes:
  "(case apply_ops (boot_state\<lparr>running_procs := fresh_vec\<rparr>) Running_procs
           [Push 1, Push 2, Push 3, Push 4, Push 5, Push 6, Push 7, Push 8] of
      Inl e \<Rightarrow> False
    | Inr s \<Rightarrow>
        alloc (running_procs s) = 8 \<and> init (running_procs s) = 8
        \<and> data (running_procs s) 2 = Some 3 \<and> data (running_procs s) 7 = Some 8
        \<and> (case ptr_vec_push s Running_procs 9 of
             Inl e \<Rightarrow> False
           | Inr s' \<Rightarrow>
               alloc (running_procs s') = 16 \<and> init (running_procs s') = 9
               \<and> alloc (running_procs s') div sizeof_uintptr = 4
               \<and> data (running_procs s') 0 = Some 1 \<and> data (running_procs s') 1 = Some 2
               \<and> data (running_procs s') 2 = None \<and> data (running_procs s') 3 = None
               \<and> data (running_procs s') 4 = None \<and> data (running_procs s') 5 = None
               \<and> data (running_procs s') 6 = None \<and> data (running_procs s') 7 = None
               \<and> data (running_procs s') 8 = Some 9))"
  by (simp add: vec_eval bindE_def sizeof_uintptr_def boot_state_def fresh_vec_def)

text \<open>
  C9 says that every run of pushes and trims keeps \<open>init\<close> within the capacity and that the
  ninth push on a vector of capacity 8 gives capacity 16. The code keeps the counters so,
  but hands \<open>alloc\<close> to \<open>xalloc\<close> and \<open>xrealloc\<close> as a number of bytes. On the example machine
  the root proc (0x40000) spawns and schedules seven children: the running vector holds
  eight procs, \<open>init = alloc = 8\<close>. It then spawns and schedules an eighth child
  (0x140000). The push of \<open>add_proc_to_state_vec\<close> doubles \<open>alloc\<close> to 16 and moves the
  vector to a block of 16 bytes, room for four pointers, with \<open>init = 9\<close>. The procs
  registered in the slots 2 to 7 are no longer in the vector although they are live and
  running with those indices, and a pick of slot 2 by the scheduler reads a slot that
  holds no proc.
\<close>

theorem ninth_proc_loses_registered_procs:
  "(case run_procs wide_started seven_children of
      Inl e \<Rightarrow> False
    | Inr s \<Rightarrow>
        alloc (running_procs s) = 8 \<and> init (running_procs s) = 8
        \<and> data (running_procs s) 0 = Some 0x40000 \<and> data (running_procs s) 1 = Some 0x60000
        \<and> data (running_procs s) 2 = Some 0x80000 \<and> data (running_procs s) 3 = Some 0xa0000
        \<and> data (running_procs s) 4 = Some 0xc0000 \<and> data (running_procs s) 5 = Some 0xe0000
        \<and> data (running_procs s) 6 = Some 0x100000 \<and> data (running_procs s) 7 = Some 0x120000
        \<and> (case run_procs s (spawn_sched 0x40000 0x140000) of
             Inl e \<Rightarrow> False
           | Inr s' \<Rightarrow>
               alloc (running_procs s') = 16 \<and> init (running_procs s') = 9
               \<and> alloc (running_procs s') div sizeof_uintptr = 4
               \<and> data (running_procs s') 0 = Some 0x40000
               \<and> data (running_procs s') 1 = Some 0x60000
               \<and> data (running_procs s') 2 = None \<and> data (running_procs s') 3 = None
               \<and> data (running_procs s') 4 = None \<and> data (running_procs s') 5 = None
               \<and> data (running_procs s') 6 = None \<and> data (running_procs s') 7 = None
               \<and> data (running_procs s') 8 = Some 0x140000
               \<and> (case procs s' 0x80000 of None \<Rightarrow> False
                   | Some pr \<Rightarrow> state pr = proc_state_running \<and> idx pr = 2)
               \<and> sched (s'\<lparr>rctx := (\<lambda>n. 2)\<rparr>) = Inl Uninitialised))"
  by (simp add: rt_eval wide_started_def wide_boot_def seven_children_def spawn_sched_def)

section \<open>C8: the scheduler\<close>





section \<open>C10: tearing the runtime down\<close>



text \<open>
  On a vector that is not empty the first slot the loop reads is the one at index \<open>init\<close>
  (the decrement comes after the read); the loop of \<open>rust_start\<close> never hands it one.
\<close>

lemma del_all_procs_first_read:
  fixes vec :: ptr_vec
  assumes "vec_get s v = Inr vec" and "init vec \<noteq> 0"
  shows "hd (del_all_procs_reads s v) = init vec"
  by (subst del_all_procs_reads.simps) (simp add: assms)



section \<open>C7: a send on a port without owner\<close>

text \<open>
  C7. A send upcall on a channel whose port has no owner changes nothing but the
  \<open>proc\<close> field of the channel (and, back in the dispatcher, the upcall code of the
  sender, which is cleared): the sender is still in state calling-C, both proc vectors,
  every port with its writers, and the \<open>queued\<close> flag of the channel are as before.
\<close>

theorem dead_send_only_sets_chan_proc:
  fixes pr :: rust_proc and ch :: rust_chan and po :: rust_port
  assumes "procs s proc = Some pr" and "state pr = proc_state_calling_c"
    and "upcall_code pr = upcall_code_send" and "upcall_args pr 0 = chan" and "chan \<noteq> 0"
    and "chans s chan = Some ch" and "chan_port ch \<noteq> 0"
    and "ports s (chan_port ch) = Some po" and "port_proc po = 0"
  shows "upcall_send s proc chan = Inr (s\<lparr>chans := (chans s)(chan \<mapsto> ch\<lparr>chan_proc := proc\<rparr>)\<rparr>)
       \<and> handle_upcall s proc
           = Inr (s\<lparr>chans := (chans s)(chan \<mapsto> ch\<lparr>chan_proc := proc\<rparr>),
                    procs := (procs s)(proc \<mapsto> pr\<lparr>upcall_code := upcall_code_log_uint32\<rparr>)\<rparr>)
       \<and> state (pr\<lparr>upcall_code := upcall_code_log_uint32\<rparr>) = proc_state_calling_c
       \<and> queued (ch\<lparr>chan_proc := proc\<rparr>) = queued ch"
proof -
  have a: "upcall_send s proc chan = Inr (s\<lparr>chans := (chans s)(chan \<mapsto> ch\<lparr>chan_proc := proc\<rparr>)\<rparr>)"
    using assms(5-9) by (simp add: upcall_send_def Let_def)
  have "handle_upcall s proc
           = Inr (s\<lparr>chans := (chans s)(chan \<mapsto> ch\<lparr>chan_proc := proc\<rparr>),
                    procs := (procs s)(proc \<mapsto> pr\<lparr>upcall_code := upcall_code_log_uint32\<rparr>)\<rparr>)"
    using assms(1,3,4) a by (simp add: handle_upcall_def Let_def)
  with a assms(2) show ?thesis by simp
qed

theorem dead_send_only_sets_chan_proc_witness:
  "handle_upcall dead_port_state 0x40000
      = Inr (dead_port_state\<lparr>
          chans := (chans dead_port_state)(0x70000 \<mapsto>
             zero_chan\<lparr>chan_port := 0x60000, buf := fresh_vec, chan_proc := 0x40000\<rparr>),
          procs := (procs dead_port_state)(0x40000 \<mapsto>
             zero_proc\<lparr>state := proc_state_calling_c, upcall_code := upcall_code_send,
               upcall_args := (\<lambda>i. if i = 0 then 0x70000 else if i = 1 then 42 else 0),
               upcall_code := upcall_code_log_uint32\<rparr>)\<rparr>)"
proof -
  have "procs dead_port_state 0x40000 = Some (zero_proc\<lparr>state := proc_state_calling_c,
                           upcall_code := upcall_code_send,
                           upcall_args := (\<lambda>i. if i = 0 then 0x70000 else if i = 1 then 42 else 0)\<rparr>)"
    and "chans dead_port_state 0x70000 = Some (zero_chan\<lparr>chan_port := 0x60000, buf := fresh_vec\<rparr>)"
    and "ports dead_port_state 0x60000 = Some (zero_port\<lparr>writers := fresh_vec\<rparr>)"
    by (simp_all add: dead_port_state_def)
  from dead_send_only_sets_chan_proc [where s = dead_port_state and proc = "0x40000"
      and pr = "zero_proc\<lparr>state := proc_state_calling_c, upcall_code := upcall_code_send,
          upcall_args := (\<lambda>i. if i = 0 then 0x70000 else if i = 1 then 42 else 0)\<rparr>"
      and chan = "0x70000" and ch = "zero_chan\<lparr>chan_port := 0x60000, buf := fresh_vec\<rparr>"
      and po = "zero_port\<lparr>writers := fresh_vec\<rparr>"] this
  show ?thesis by (simp add: zero_proc_def zero_chan_def zero_port_def)
qed

section \<open>C6: deleting a queued channel\<close>

text \<open>
  C6 says that \<open>del_chan\<close> takes a queued channel out of the writers of its port before
  freeing it. \<open>upcall_del_chan\<close> never looks at \<open>queued\<close>. On the example machine the
  root proc creates a port and a channel, spawns a child and schedules it; the child sends
  on the channel while the root is not receiving, so the channel is queued in slot 0 of
  the writers. The root then deletes the channel: it is freed, and slot 0 of the writers
  still holds its address. The next receive of the root on the port follows that pointer
  into freed memory.
\<close>

theorem del_chan_leaves_queued_entry:
  "(case run_procs started
           (chan_setup @ [(0xa0000, upcall_yield upcall_code_send 0x80000 0xdeadbeef)]) of
      Inl e \<Rightarrow> False
    | Inr s \<Rightarrow>
        (case chans s 0x80000 of None \<Rightarrow> False
         | Some ch \<Rightarrow> queued ch \<and> chan_port ch = 0x60000 \<and> chan_idx ch = 0)
        \<and> (case ports s 0x60000 of None \<Rightarrow> False
            | Some po \<Rightarrow> init (writers po) = 1 \<and> data (writers po) 0 = Some 0x80000)
        \<and> (case run_proc s 0x40000 (upcall_yield upcall_code_del_chan 0 0x80000) of
              Inl e \<Rightarrow> False
            | Inr s' \<Rightarrow>
                chans s' 0x80000 = None
                \<and> (case ports s' 0x60000 of None \<Rightarrow> False
                    | Some po \<Rightarrow> init (writers po) = 1 \<and> data (writers po) 0 = Some 0x80000)
                \<and> run_proc s' 0x40000 (upcall_yield upcall_code_recv 0x5ff0c 0x60000)
                    = Inl Invalid_pointer))"
  by (simp add: rt_eval chan_setup_def)

section \<open>C5: the spawn upcall\<close>

text \<open>
  C5 as stated fails in its last part: after the spawn upcall of the root proc of the
  example machine the new proc (0x60000) exists in state running and its handle is in the
  out-slot, but the running vector is what it was and holds no slot for the new proc.
\<close>

theorem spawn_upcall_does_not_register:
  "(case run_procs started [(0x40000, upcall_yield upcall_code_spawn 0x5ff08 0x1000)] of
      Inl e \<Rightarrow> False
    | Inr s \<Rightarrow>
        (case procs s 0x60000 of None \<Rightarrow> False
         | Some pr \<Rightarrow> state pr = proc_state_running \<and> prog pr = 0x1000)
        \<and> mem s 0x5ff08 = 0x60000
        \<and> running_procs s = running_procs started
        \<and> 0x60000 \<notin> vec_elems (running_procs s)
        \<and> 0x60000 \<notin> vec_elems (blocked_procs s))"
  by (simp add: rt_eval vec_elems_def)

text \<open>
  C5, amended. When the allocator hands out two fresh blocks \<open>a\<close> and \<open>b\<close> and \<open>args[1]\<close>
  is a prog, the spawn upcall creates at \<open>a\<close> a proc for that prog in state running, with
  its stack at \<open>b\<close>, stores \<open>a\<close> in the out-slot \<open>args[0]\<close>, and leaves both scheduler
  vectors as they were. (Registration is a separate step: \<open>add_proc_to_state_vec\<close>, which
  \<open>rust_start\<close> calls for the root proc and which the sched upcall calls for a proc
  handle.)
\<close>

theorem spawn_upcall_creates_proc:
  fixes pr :: rust_proc and prg :: rust_prog
  assumes "procs s proc = Some pr" and "upcall_code pr = upcall_code_spawn"
    and "progs s (upcall_args pr 1) = Some prg"
    and "heap s = a # b # h" and "a \<noteq> 0" and "b \<noteq> 0" and "procs s a = None"
  shows "\<exists>s'. handle_upcall s proc = Inr s'
           \<and> (\<exists>npr. procs s' a = Some npr \<and> state npr = proc_state_running
                  \<and> prog npr = upcall_args pr 1 \<and> stk npr = b)
           \<and> mem s' (upcall_args pr 0) = a
           \<and> running_procs s' = running_procs s \<and> blocked_procs s' = blocked_procs s"
proof -
  from assms(1,7) have "a \<noteq> proc" by auto
  with assms show ?thesis
    by (simp add: handle_upcall_def spawn_proc_def new_proc_def new_stk_def xalloc_def Let_def)
qed

theorem spawn_upcall_creates_proc_witness:
  "(case handle_upcall
           (started\<lparr>procs := (procs started)(0x40000 \<mapsto> zero_proc\<lparr>state := proc_state_calling_c,
               upcall_code := upcall_code_spawn,
               upcall_args := (\<lambda>i. if i = 0 then 0x5ff08 else if i = 1 then 0x1000 else 0)\<rparr>)\<rparr>)
           0x40000 of
      Inl e \<Rightarrow> False
    | Inr s' \<Rightarrow>
        (\<exists>npr. procs s' 0x60000 = Some npr \<and> state npr = proc_state_running
                  \<and> prog npr = 0x1000 \<and> stk npr = 0x70000)
        \<and> mem s' 0x5ff08 = 0x60000
        \<and> running_procs s' = running_procs started \<and> blocked_procs s' = blocked_procs started)"
proof -
  let ?pr = "zero_proc\<lparr>state := proc_state_calling_c, upcall_code := upcall_code_spawn,
               upcall_args := (\<lambda>i. if i = 0 then 0x5ff08 else if i = 1 then 0x1000 else 0)\<rparr>"
  let ?s = "started\<lparr>procs := (procs started)(0x40000 \<mapsto> ?pr)\<rparr>"
  have "procs ?s 0x40000 = Some ?pr" "upcall_code ?pr = upcall_code_spawn"
    "progs ?s (upcall_args ?pr 1) = Some \<lparr>init_code = 0x1010, main_code = 0x1020, fini_code = 0x1030\<rparr>"
    "heap ?s = 0x60000 # 0x70000 # [0x80000, 0x90000, 0xa0000, 0xb0000, 0xc0000]"
    "(0x60000 :: uintptr) \<noteq> 0" "(0x70000 :: uintptr) \<noteq> 0" "procs ?s 0x60000 = None"
    by (simp_all add: rt_eval)
  from spawn_upcall_creates_proc [OF this] obtain s' where "handle_upcall ?s 0x40000 = Inr s'"
    and "(\<exists>npr. procs s' 0x60000 = Some npr \<and> state npr = proc_state_running
                  \<and> prog npr = 0x1000 \<and> stk npr = 0x70000)
        \<and> mem s' 0x5ff08 = 0x60000
        \<and> running_procs s' = running_procs started \<and> blocked_procs s' = blocked_procs started"
    by auto
  then show ?thesis by simp
qed

lemma new_proc_Inr:
  fixes prg :: rust_prog
  assumes "new_proc s pg = Inr (p, s')" and "progs s pg = Some prg"
  shows "\<exists>b h. heap s = p # b # h \<and> p \<noteq> 0 \<and> b \<noteq> 0 \<and>
     s' = s\<lparr>heap := h,
            stks := (b, \<lparr>prev = 0, next = 0, valgrind_id = 0,
                       stk_size = init_stk_bytes, stk_live = 0\<rparr>) # stks s,
            procs := (procs s)(p \<mapsto> zero_proc\<lparr>prog := pg, stk := b,
               sp := (stk_data b (init_stk_bytes - sizeof_uintptr) AND NOT 0xf) - 28,
               state := proc_state_running\<rparr>),
            mem := (mem s)
               (stk_data b (init_stk_bytes - sizeof_uintptr) AND NOT 0xf := p,
                (stk_data b (init_stk_bytes - sizeof_uintptr) AND NOT 0xf) - 4 := 0,
                (stk_data b (init_stk_bytes - sizeof_uintptr) AND NOT 0xf) - 8 := main_code prg,
                (stk_data b (init_stk_bytes - sizeof_uintptr) AND NOT 0xf) - 12 := main_code prg,
                (stk_data b (init_stk_bytes - sizeof_uintptr) AND NOT 0xf) - 16 := 0,
                (stk_data b (init_stk_bytes - sizeof_uintptr) AND NOT 0xf) - 20 := 0,
                (stk_data b (init_stk_bytes - sizeof_uintptr) AND NOT 0xf) - 24 := 0,
                (stk_data b (init_stk_bytes - sizeof_uintptr) AND NOT 0xf) - 28 := 0)\<rparr>"
proof (cases "heap s")
  case Nil
  with assms show ?thesis by (simp add: new_proc_def xalloc_def)
next
  case a: (Cons a t)
  show ?thesis
  proof (cases t)
    case Nil
    with a assms show ?thesis
      by (simp add: new_proc_def new_stk_def xalloc_def split: if_splits)
  next
    case (Cons b h)
    with a assms show ?thesis
      by (auto simp: new_proc_def new_stk_def xalloc_def Let_def n_callee_saves_def
          sizeof_uintptr_def seed_callee_saves_4 split: if_splits)
  qed
qed

lemma and_low_high_16:
  fixes x :: uintptr
  shows "(x AND 0xf) AND (x AND NOT 0xf) = 0" and "(x AND 0xf) OR (x AND NOT 0xf) = x"
proof -
  show "(x AND 0xf) AND (x AND NOT 0xf) = 0"
    by (metis (no_types) and.assoc and.commute and_zero_eq word_and_not)
  show "(x AND 0xf) OR (x AND NOT 0xf) = x"
    by (metis bit.conj_disj_distrib bit.disj_cancel_right and.right_neutral)
qed

lemma align_down_16:
  fixes x :: uintptr
  shows "(x AND NOT 0xf) AND 0xf = 0" and "x AND NOT 0xf \<le> x" and "x - (x AND NOT 0xf) < 16"
proof -
  show "(x AND NOT 0xf) AND 0xf = 0" by (simp add: and.assoc)
  show "x AND NOT 0xf \<le> x" by (rule word_and_le2)
  have "x - (x AND NOT 0xf) = x AND 0xf"
    using word_plus_and_or [of "x AND 0xf" "x AND NOT 0xf"] unfolding and_low_high_16
    by (metis add.left_neutral add_diff_cancel_right')
  moreover have "x AND 0xf \<le> 0xf" by (rule word_and_le1)
  ultimately show "x - (x AND NOT 0xf) < 16" by (simp add: word_le_nat_alt word_less_nat_alt)
qed

section \<open>C4: the initial frame of a proc\<close>

text \<open>
  C4, amended. \<open>new_proc\<close> takes the address \<open>x\<close> of the last word of the stack segment,
  aligns it down to the 16-byte boundary \<open>top\<close>, and stores from \<open>top\<close> downwards: the proc
  pointer at \<open>top\<close>, 0 at \<open>top - 4\<close>, \<open>main_code\<close> of the prog (the activation pc) at
  \<open>top - 12\<close>, and 0 in the \<open>n_callee_saves = 4\<close> words from \<open>top - 16\<close> down to \<open>top - 28\<close>.
  The saved \<open>sp\<close> of the proc is \<open>top - 28\<close>, the address of the last callee-save: seven
  words below the aligned address, so not itself a multiple of 16. (The word at \<open>top - 8\<close>
  is left out here.)
\<close>

theorem new_proc_initial_frame:
  fixes prg :: rust_prog
  assumes "new_proc s pg = Inr (p, s')" and "progs s pg = Some prg"
  shows "\<exists>sk pr x top. procs s' p = Some pr \<and> stk pr = sk \<and> prog pr = pg
           \<and> state pr = proc_state_running
           \<and> x = stk_data sk (init_stk_bytes - sizeof_uintptr) \<and> top = x AND NOT 0xf
           \<and> top AND 0xf = 0 \<and> top \<le> x \<and> x - top < 16
           \<and> mem s' top = p \<and> mem s' (top - 4) = 0 \<and> mem s' (top - 12) = main_code prg
           \<and> (\<forall>j<n_callee_saves. mem s' (top - 16 - 4 * of_nat j) = 0)
           \<and> sp pr = top - 28"
proof -
  from new_proc_Inr [OF assms] obtain b h where
    s': "s' = s\<lparr>heap := h,
            stks := (b, \<lparr>prev = 0, next = 0, valgrind_id = 0,
                       stk_size = init_stk_bytes, stk_live = 0\<rparr>) # stks s,
            procs := (procs s)(p \<mapsto> zero_proc\<lparr>prog := pg, stk := b,
               sp := (stk_data b (init_stk_bytes - sizeof_uintptr) AND NOT 0xf) - 28,
               state := proc_state_running\<rparr>),
            mem := (mem s)
               (stk_data b (init_stk_bytes - sizeof_uintptr) AND NOT 0xf := p,
                (stk_data b (init_stk_bytes - sizeof_uintptr) AND NOT 0xf) - 4 := 0,
                (stk_data b (init_stk_bytes - sizeof_uintptr) AND NOT 0xf) - 8 := main_code prg,
                (stk_data b (init_stk_bytes - sizeof_uintptr) AND NOT 0xf) - 12 := main_code prg,
                (stk_data b (init_stk_bytes - sizeof_uintptr) AND NOT 0xf) - 16 := 0,
                (stk_data b (init_stk_bytes - sizeof_uintptr) AND NOT 0xf) - 20 := 0,
                (stk_data b (init_stk_bytes - sizeof_uintptr) AND NOT 0xf) - 24 := 0,
                (stk_data b (init_stk_bytes - sizeof_uintptr) AND NOT 0xf) - 28 := 0)\<rparr>"
    by blast
  define x where "x = stk_data b (init_stk_bytes - sizeof_uintptr)"
  define top where "top = x AND NOT 0xf"
  define pr where "pr = zero_proc\<lparr>prog := pg, stk := b, sp := top - 28,
               state := proc_state_running\<rparr>"
  have m: "mem s' = (mem s)(top := p, top - 4 := 0, top - 8 := main_code prg,
      top - 12 := main_code prg, top - 16 := 0, top - 20 := 0, top - 24 := 0, top - 28 := 0)"
    and p: "procs s' p = Some pr"
    unfolding s' top_def x_def pr_def by simp_all
  have cs: "\<forall>j<n_callee_saves. mem s' (top - 16 - 4 * of_nat j) = 0"
  proof (intro allI impI)
    fix j assume "j < n_callee_saves"
    then have "j = 0 \<or> j = 1 \<or> j = 2 \<or> j = 3" by (auto simp: n_callee_saves_def)
    then show "mem s' (top - 16 - 4 * of_nat j) = 0" unfolding m by auto
  qed
  have f1: "stk pr = b" and f2: "prog pr = pg" and f3: "state pr = proc_state_running"
    and f4: "sp pr = top - 28"
    by (simp_all add: pr_def)
  have t1: "top AND 0xf = 0" unfolding top_def by (rule align_down_16(1))
  have t2: "top \<le> x" unfolding top_def by (rule align_down_16(2))
  have t3: "x - top < 16" unfolding top_def by (rule align_down_16(3))
  have m0: "mem s' top = p" and m1: "mem s' (top - 4) = 0"
    and m3: "mem s' (top - 12) = main_code prg"
    unfolding m by simp_all
  from p f1 f2 f3 x_def top_def t1 t2 t3 m0 m1 m3 cs f4 show ?thesis
    by - (rule exI [of _ b], rule exI [of _ pr], rule exI [of _ x], rule exI [of _ top],
      (intro conjI; assumption))
qed

text \<open>
  The slot the layout comment of \<open>new_proc\<close> calls the fake return pc (\<open>NULL\<close>, spacing)
  receives \<open>main_code\<close> as well.
\<close>

lemma new_proc_fake_retpc:
  fixes prg :: rust_prog
  assumes "new_proc s pg = Inr (p, s')" and "progs s pg = Some prg" and "procs s' p = Some pr"
  shows "mem s' ((stk_data (stk pr) (init_stk_bytes - sizeof_uintptr) AND NOT 0xf) - 8)
     = main_code prg"
proof -
  from new_proc_Inr [OF assms(1,2)] assms(3) show ?thesis by auto
qed

theorem new_proc_initial_frame_witness:
  "(case new_proc boot_state 0x1000 of
      Inl e \<Rightarrow> False
    | Inr (p, s') \<Rightarrow>
        p = 0x10000
        \<and> (\<exists>sk pr x top. procs s' p = Some pr \<and> stk pr = sk \<and> prog pr = 0x1000
           \<and> state pr = proc_state_running
           \<and> x = stk_data sk (init_stk_bytes - sizeof_uintptr) \<and> top = x AND NOT 0xf
           \<and> top AND 0xf = 0 \<and> top \<le> x \<and> x - top < 16
           \<and> mem s' top = p \<and> mem s' (top - 4) = 0 \<and> mem s' (top - 12) = 0x1020
           \<and> (\<forall>j<n_callee_saves. mem s' (top - 16 - 4 * of_nat j) = 0)
           \<and> sp pr = top - 28))"
proof -
  obtain s' where e: "new_proc boot_state 0x1000 = Inr (0x10000, s')"
    by (simp add: rt_eval)
  have "progs boot_state 0x1000
      = Some \<lparr>init_code = 0x1010, main_code = 0x1020, fini_code = 0x1030\<rparr>"
    by (simp add: boot_state_def)
  from new_proc_initial_frame [OF e this] e show ?thesis by simp
qed

text \<open>
  C4 as stated fails in two places: the saved \<open>sp\<close> is not a multiple of 16, and the word
  below the first spacer is not zero. For the first proc of the example machine the
  aligned top is 0x30010; the saved \<open>sp\<close> is 0x2fff4, and the word at 0x30008 is the
  \<open>main_code\<close> 0x1020 of the prog.
\<close>

theorem new_proc_saved_sp_not_aligned:
  "(case new_proc boot_state 0x1000 of
      Inl e \<Rightarrow> False
    | Inr (p, s') \<Rightarrow>
        (case procs s' p of None \<Rightarrow> False
         | Some pr \<Rightarrow> sp pr = 0x2fff4 \<and> sp pr AND 0xf = 4 \<and> sp pr AND 0xf \<noteq> 0)
        \<and> mem s' 0x30010 = p \<and> mem s' 0x3000c = 0 \<and> mem s' 0x30008 = 0x1020
        \<and> mem s' 0x30004 = 0x1020)"
  by (simp add: rt_eval)

section \<open>The scheduler vectors\<close>

lemma returns_Inr [simp]: "returns (Inr x) Q \<longleftrightarrow> Q x"
  by (simp add: returns_def)

lemma returns_bindE:
  assumes "returns m P" and "\<And>x. m = Inr x \<Longrightarrow> P x \<Longrightarrow> returns (f x) Q"
  shows "returns (bindE m f) Q"
  using assms by (cases m) (auto simp: returns_def)

lemma returns_mono:
  assumes "returns m P" and "\<And>x. m = Inr x \<Longrightarrow> P x \<Longrightarrow> Q x"
  shows "returns m Q"
  using assms by (cases m) (auto simp: returns_def)

lemma get_state_vec_cases:
  "get_state_vec st = Running_procs \<or> get_state_vec st = Blocked_procs"
  by (cases st) simp_all

lemma vec_put_sched_simps [simp]:
  "procs (vec_put s Running_procs x) = procs s"
  "procs (vec_put s Blocked_procs x) = procs s"
  "running_procs (vec_put s Running_procs x) = x"
  "running_procs (vec_put s Blocked_procs x) = running_procs s"
  "blocked_procs (vec_put s Running_procs x) = blocked_procs s"
  "blocked_procs (vec_put s Blocked_procs x) = x"
  "heap (vec_put s Running_procs x) = heap s"
  "heap (vec_put s Blocked_procs x) = heap s"
  by (simp_all add: vec_put_def)

lemma vec_get_sched_simps [simp]:
  "vec_get s Running_procs = Inr (running_procs s)"
  "vec_get s Blocked_procs = Inr (blocked_procs s)"
  by (simp_all add: vec_get_def)

lemma sched_frame_vec_put [simp]:
  "sched_frame s (vec_put s' Running_procs x) = sched_frame s s'"
  "sched_frame s (vec_put s' Blocked_procs x) = sched_frame s s'"
  by (simp_all add: sched_frame_def vec_put_def)

lemma sched_frame_upd [simp]:
  "sched_frame s (s'\<lparr>procs := ps\<rparr>) = sched_frame s s'"
  "sched_frame s (s'\<lparr>heap := h\<rparr>) = sched_frame s s'"
  "sched_frame s s"
  by (simp_all add: sched_frame_def)

lemma sched_frame_trans: "sched_frame s s1 \<Longrightarrow> sched_frame s1 s2 \<Longrightarrow> sched_frame s s2"
  by (simp add: sched_frame_def)

lemma ptr_vec_swapdel_sched:
  fixes vec :: ptr_vec
  assumes "vec_get s v = Inr vec" and "i < init vec" and "init vec \<le> alloc vec"
  shows "ptr_vec_swapdel s v i = Inr (vec_put s v (vec\<lparr>init := init vec - 1,
            data := (if init vec - 1 > 0 then (data vec)(i := data vec (init vec - 1))
                     else data vec)\<rparr>))"
  using assms by (auto simp: ptr_vec_swapdel_def)

lemma ptr_vec_trim_sched:
  fixes vec :: ptr_vec
  assumes "vec_get s v = Inr vec" and "alloc vec = INIT_PTR_VEC_SZ"
  shows "ptr_vec_trim s v n = Inr s"
  by (rule ptr_vec_trim_same [OF assms(1)]) (simp add: assms(2) INIT_PTR_VEC_SZ_def)

lemma ptr_vec_push_sched:
  fixes vec :: ptr_vec
  assumes "vec_get s v = Inr vec" and "init vec < alloc vec" and "alloc vec = INIT_PTR_VEC_SZ"
  shows "ptr_vec_push s v p
       = Inr (vec_put s v (vec\<lparr>data := (data vec)(init vec \<mapsto> p), init := init vec + 1\<rparr>))"
  by (rule ptr_vec_push_room [OF assms(1,2)]) (simp add: assms(3) INIT_PTR_VEC_SZ_def)

lemma is_sched_simps [simp]:
  "is_sched Running_procs" "is_sched Blocked_procs" "is_sched (get_state_vec st)"
  "\<not> is_sched (Writers a)" "\<not> is_sched (Buf a)"
  by (simp_all add: is_sched_def get_state_vec_cases)

lemma vec_get_sched: "is_sched v \<Longrightarrow> vec_get s v = Inr (sched_vec s v)"
  by (auto simp: is_sched_def sched_vec_def)

lemma sched_vec_vec_put:
  "is_sched v \<Longrightarrow> is_sched w \<Longrightarrow> sched_vec (vec_put s v x) w = (if w = v then x else sched_vec s w)"
  by (auto simp: is_sched_def sched_vec_def)

lemma sched_vec_upd [simp]:
  "sched_vec (s\<lparr>procs := ps\<rparr>) w = sched_vec s w"
  "sched_vec (s\<lparr>heap := h\<rparr>) w = sched_vec s w"
  "sched_vec (s\<lparr>mem := m\<rparr>) w = sched_vec s w"
  "sched_vec (s\<lparr>chans := c\<rparr>) w = sched_vec s w"
  "sched_vec (s\<lparr>ports := po\<rparr>) w = sched_vec s w"
  by (simp_all add: sched_vec_def)

lemma vec_put_sched_fields:
  "is_sched v \<Longrightarrow> procs (vec_put s v x) = procs s"
  "is_sched v \<Longrightarrow> heap (vec_put s v x) = heap s"
  "is_sched v \<Longrightarrow> sched_frame s0 (vec_put s v x) = sched_frame s0 s"
  by (auto simp: is_sched_def)

lemma case_case_ex:
  "(case a of None \<Rightarrow> False | Some p \<Rightarrow> (case f p of None \<Rightarrow> False | Some pr \<Rightarrow> P pr))
     \<longleftrightarrow> (\<exists>p pr. a = Some p \<and> f p = Some pr \<and> P pr)"
proof (cases a)
  case None
  then show ?thesis by simp
next
  case (Some p)
  then show ?thesis by (cases "f p") simp_all
qed

lemma slots_ok_alt:
  "is_sched v \<Longrightarrow> slots_ok s v \<longleftrightarrow>
     init (sched_vec s v) \<le> alloc (sched_vec s v) \<and> alloc (sched_vec s v) = INIT_PTR_VEC_SZ
     \<and> (\<forall>i<init (sched_vec s v). \<exists>p pr. data (sched_vec s v) i = Some p \<and> procs s p = Some pr
            \<and> idx pr = i \<and> get_state_vec (state pr) = v)"
  by (simp add: slots_ok_def vec_get_sched case_case_ex)

lemma slots_okD:
  assumes "slots_ok s v" and "is_sched v" and "i < init (sched_vec s v)"
  obtains p and pr :: rust_proc where "data (sched_vec s v) i = Some p" and "procs s p = Some pr"
    and "idx pr = i" and "get_state_vec (state pr) = v"
  using assms by (auto simp: slots_ok_alt)

lemma proc_vec_inv_alt:
  "proc_vec_inv s \<longleftrightarrow> procs s 0 = None \<and> (\<forall>v. is_sched v \<longrightarrow> slots_ok s v)"
  by (auto simp: proc_vec_inv_def is_sched_def)

lemma sched_elems_alt:
  "sched_elems s = vec_elems (sched_vec s Running_procs) \<union> vec_elems (sched_vec s Blocked_procs)"
  by (simp add: sched_elems_def sched_vec_def)

lemma sched_elems_iff:
  "p \<in> sched_elems s \<longleftrightarrow> (\<exists>v. is_sched v \<and> p \<in> vec_elems (sched_vec s v))"
  by (auto simp: sched_elems_alt is_sched_def)

lemma vec_elemsD:
  assumes "p \<in> vec_elems (sched_vec s v)" and "slots_ok s v" and "is_sched v"
  obtains pr :: rust_proc where "procs s p = Some pr" and "idx pr < init (sched_vec s v)"
    and "data (sched_vec s v) (idx pr) = Some p" and "get_state_vec (state pr) = v"
proof -
  from assms(1) obtain i where i: "i < init (sched_vec s v)" "data (sched_vec s v) i = Some p"
    by (auto simp: vec_elems_def)
  obtain q and pr :: rust_proc where q: "data (sched_vec s v) i = Some q" "procs s q = Some pr"
    "idx pr = i" "get_state_vec (state pr) = v"
    using assms(2,3) i(1) by (rule slots_okD)
  from q(1) i(2) have "q = p" by simp
  with q i have "procs s p = Some pr" "idx pr < init (sched_vec s v)"
    "data (sched_vec s v) (idx pr) = Some p" "get_state_vec (state pr) = v"
    by simp_all
  then show thesis by (rule that)
qed

text \<open>A registered proc sits in the slot \<open>idx\<close> of the vector of its state.\<close>

lemma registered_slot:
  fixes pr :: rust_proc
  assumes "proc_vec_inv s" and "p \<in> sched_elems s" and "procs s p = Some pr"
  shows "idx pr < init (sched_vec s (get_state_vec (state pr)))
       \<and> data (sched_vec s (get_state_vec (state pr))) (idx pr) = Some p"
proof -
  from assms(2) obtain v where v: "is_sched v" "p \<in> vec_elems (sched_vec s v)"
    by (auto simp: sched_elems_iff)
  from assms(1) v(1) have "slots_ok s v" by (simp add: proc_vec_inv_alt)
  with v obtain pr' :: rust_proc where "procs s p = Some pr'"
    "idx pr' < init (sched_vec s v)" "data (sched_vec s v) (idx pr') = Some p"
    "get_state_vec (state pr') = v"
    by (elim vec_elemsD)
  with assms(3) show ?thesis by simp
qed

lemma same_but_idx_refl [simp]: "same_but_idx a a"
proof (cases a)
  case None
  then show ?thesis by (simp add: same_but_idx_def)
next
  case (Some x)
  have "x = x\<lparr>idx := idx x\<rparr>" by simp
  then have "\<exists>k. x = x\<lparr>idx := k\<rparr>" ..
  with Some show ?thesis by (simp add: same_but_idx_def)
qed


lemma same_but_idx_SomeD:
  fixes x :: rust_proc
  assumes "same_but_idx a b" and "a = Some x"
  obtains k where "b = Some (x\<lparr>idx := k\<rparr>)"
  using assms by (auto simp: same_but_idx_def)

lemma slots_ok_transfer:
  assumes w: "is_sched w" and ok: "slots_ok s w" and same: "sched_vec s' w = sched_vec s w"
    and recs: "\<And>r rr. r \<in> vec_elems (sched_vec s w) \<Longrightarrow> procs s r = Some rr \<Longrightarrow>
        \<exists>rr'. procs s' r = Some rr' \<and> idx rr' = idx rr
           \<and> get_state_vec (state rr') = get_state_vec (state rr)"
  shows "slots_ok s' w"
  unfolding slots_ok_alt [OF w] same
proof (intro conjI allI impI)
  from ok w show "init (sched_vec s w) \<le> alloc (sched_vec s w)"
    and "alloc (sched_vec s w) = INIT_PTR_VEC_SZ"
    by (simp_all add: slots_ok_alt)
next
  fix i assume i: "i < init (sched_vec s w)"
  obtain r and rr :: rust_proc where r: "data (sched_vec s w) i = Some r" "procs s r = Some rr"
    "idx rr = i" "get_state_vec (state rr) = w"
    using ok w i by (rule slots_okD)
  from i r(1) have "r \<in> vec_elems (sched_vec s w)" by (auto simp: vec_elems_def)
  from recs [OF this r(2)] obtain rr' :: rust_proc where "procs s' r = Some rr'"
    "idx rr' = idx rr" "get_state_vec (state rr') = get_state_vec (state rr)"
    by blast
  with r show "\<exists>p pr. data (sched_vec s w) i = Some p \<and> procs s' p = Some pr \<and> idx pr = i
      \<and> get_state_vec (state pr) = w"
    by simp
qed

lemma sched_elems_split:
  assumes "is_sched v" and "is_sched w" and "w \<noteq> v"
  shows "sched_elems x = vec_elems (sched_vec x v) \<union> vec_elems (sched_vec x w)"
  using assms by (auto simp: sched_elems_alt is_sched_def)

lemma other_sched:
  assumes "is_sched v"
  shows "\<exists>w. is_sched w \<and> w \<noteq> v \<and> (\<forall>u. is_sched u \<longrightarrow> u = v \<or> u = w)"
proof (cases "v = Running_procs")
  case True
  then show ?thesis by (intro exI [of _ Blocked_procs]) (auto simp: is_sched_def)
next
  case False
  with assms have "v = Blocked_procs" by (simp add: is_sched_def)
  then show ?thesis by (intro exI [of _ Running_procs]) (auto simp: is_sched_def)
qed

lemma not_in_other_vec:
  fixes pr :: rust_proc
  assumes "slots_ok s w" and "is_sched w" and "procs s p = Some pr"
    and "get_state_vec (state pr) \<noteq> w"
  shows "p \<notin> vec_elems (sched_vec s w)"
proof
  assume "p \<in> vec_elems (sched_vec s w)"
  then obtain pr' :: rust_proc where "procs s p = Some pr'" "get_state_vec (state pr') = w"
    using assms(1,2) by (elim vec_elemsD)
  with assms(3,4) show False by simp
qed

lemma proc_vec_swapdel_spec:
  fixes pr :: rust_proc
  assumes inv: "proc_vec_inv s" and p: "procs s p = Some pr" and reg: "p \<in> sched_elems s"
    and v: "v = get_state_vec (state pr)"
  shows "\<exists>s1. proc_vec_swapdel s v p = Inr s1 \<and> proc_vec_inv s1
           \<and> sched_elems s1 = sched_elems s - {p} \<and> procs s1 p = Some pr
           \<and> (\<forall>r. same_but_idx (procs s r) (procs s1 r)) \<and> sched_frame s s1
           \<and> heap s1 = heap s
           \<and> init (sched_vec s1 v) = init (sched_vec s v) - 1
           \<and> alloc (sched_vec s1 v) = alloc (sched_vec s v)
           \<and> (\<forall>w. is_sched w \<longrightarrow> w \<noteq> v \<longrightarrow> sched_vec s1 w = sched_vec s w)"
proof -
  define V where "V = sched_vec s v"
  define i where "i = idx pr"
  define n where "n = init V - 1"
  have sv: "is_sched v" by (simp add: v)
  from other_sched [OF sv] obtain w where w: "is_sched w" "w \<noteq> v"
    and only: "\<And>u. is_sched u \<Longrightarrow> u = v \<or> u = w"
    by blast
  from inv sv w have okv: "slots_ok s v" and okw: "slots_ok s w" and nz: "procs s 0 = None"
    by (simp_all add: proc_vec_inv_alt)
  from registered_slot [OF inv reg p] have i: "i < init V" and di: "data V i = Some p"
    by (simp_all add: V_def i_def v)
  from okv sv have cap: "init V \<le> alloc V" "alloc V = INIT_PTR_VEC_SZ"
    by (simp_all add: slots_ok_alt V_def)
  from p nz have p0: "p \<noteq> 0" by auto
  define V1 where "V1 = V\<lparr>init := n, data := (if 0 < n then (data V)(i := data V n) else data V)\<rparr>"
  define sa where "sa = vec_put s v V1"
  have g: "vec_get s v = Inr V" by (simp add: V_def vec_get_sched sv)
  have sw: "ptr_vec_swapdel s v i = Inr sa"
    using ptr_vec_swapdel_sched [OF g i cap(1)] by (simp add: sa_def V1_def n_def)
  from i cap di have rd: "vec_read V i = Inr p" by (simp add: vec_read_def)
  have ga: "vec_get sa v = Inr V1" by (simp add: sa_def vec_get_sched sv sched_vec_vec_put)
  have pa: "procs sa = procs s" by (simp add: sa_def vec_put_sched_fields sv)
  have pw: "p \<notin> vec_elems (sched_vec s w)"
    using not_in_other_vec [OF okw w(1) p] w(2) by (auto simp: v)
  show ?thesis
  proof (cases "0 < n")
    case False
    then have n0: "n = 0" by simp
    with i have iV: "init V = 1" and i0: "i = 0" by (simp_all add: n_def)
    have e: "proc_vec_swapdel s v p = Inr sa"
      using p p0 g rd sw ga n0 by (simp add: proc_vec_swapdel_def i_def V1_def)
    have svs: "sched_vec sa u = (if u = v then V1 else sched_vec s u)" if "is_sched u" for u
      using that sv by (simp add: sa_def sched_vec_vec_put)
    have "slots_ok sa v"
      using sv cap n0 by (simp add: slots_ok_alt svs V1_def)
    moreover have "slots_ok sa w"
    proof (rule slots_ok_transfer [OF w(1) okw])
      show "sched_vec sa w = sched_vec s w" using w by (simp add: svs)
    qed (simp add: pa)
    ultimately have inv': "proc_vec_inv sa"
      using nz only by (auto simp: proc_vec_inv_alt pa)
    have "vec_elems V1 = {}" by (simp add: vec_elems_def V1_def n0)
    moreover have "vec_elems V = {p}"
      using iV di i0 by (auto simp: vec_elems_def)
    ultimately have el: "sched_elems sa = sched_elems s - {p}"
      using pw w sv by (auto simp: sched_elems_split [OF sv w] svs V_def)
    have fr: "sched_frame s sa" and hp: "heap sa = heap s"
      by (simp_all add: sa_def vec_put_sched_fields sv)
    have in1: "init (sched_vec sa v) = init (sched_vec s v) - 1"
      and al1: "alloc (sched_vec sa v) = alloc (sched_vec s v)"
      by (simp_all add: svs sv V1_def n_def V_def)
    have oth: "\<forall>u. is_sched u \<longrightarrow> u \<noteq> v \<longrightarrow> sched_vec sa u = sched_vec s u"
      by (simp add: svs)
    have pp: "procs sa p = Some pr" and sbi: "\<forall>r. same_but_idx (procs s r) (procs sa r)"
      by (simp_all add: pa p)
    from e inv' el pp sbi fr hp in1 al1 oth show ?thesis by blast
  next
    case True
    then have nV: "n < init V" by (simp add: n_def)
    obtain q and qr :: rust_proc where q: "data V n = Some q" "procs s q = Some qr"
      "idx qr = n" "get_state_vec (state qr) = v"
      using okv sv nV unfolding V_def by (rule slots_okD)
    define sb where "sb = sa\<lparr>procs := (procs sa)(q \<mapsto> qr\<lparr>idx := i\<rparr>)\<rparr>"
    from i cap q True have rd1: "vec_read V1 i = Inr q" by (simp add: vec_read_def V1_def)
    have e: "proc_vec_swapdel s v p = Inr sb"
      using p p0 g rd sw ga True rd1 q(2)
      by (simp add: proc_vec_swapdel_def i_def [symmetric] pa sb_def V1_def)
    have svs: "sched_vec sb u = (if u = v then V1 else sched_vec s u)" if "is_sched u" for u
      using that sv by (simp add: sb_def sa_def sched_vec_vec_put)
    have pb: "procs sb = (procs s)(q \<mapsto> qr\<lparr>idx := i\<rparr>)" by (simp add: sb_def pa)
    have okv': "slots_ok sb v"
      unfolding slots_ok_alt [OF sv] svs [OF sv]
    proof (intro conjI allI impI; simp)
      from cap show "init V1 \<le> alloc V1" and "alloc V1 = INIT_PTR_VEC_SZ"
        by (simp_all add: V1_def n_def)
    next
      fix j assume "j < init V1"
      then have j: "j < n" by (simp add: V1_def)
      show "\<exists>r. data V1 j = Some r \<and> (\<exists>rr. procs sb r = Some rr \<and> idx rr = j
          \<and> get_state_vec (state rr) = v)"
      proof (cases "j = i")
        case True
        with q \<open>0 < n\<close> show ?thesis by (simp add: V1_def pb)
      next
        case False
        from j nV have "j < init (sched_vec s v)" by (simp add: V_def)
        with okv sv obtain r and rr :: rust_proc where r: "data (sched_vec s v) j = Some r"
          "procs s r = Some rr" "idx rr = j" "get_state_vec (state rr) = v"
          by (elim slots_okD)
        with q j have "r \<noteq> q" by auto
        with r False \<open>0 < n\<close> show ?thesis by (simp add: V1_def pb V_def)
      qed
    qed
    have okw': "slots_ok sb w"
    proof (rule slots_ok_transfer [OF w(1) okw])
      show "sched_vec sb w = sched_vec s w" using w by (simp add: svs)
    next
      fix r and rr :: rust_proc
      assume r: "r \<in> vec_elems (sched_vec s w)" "procs s r = Some rr"
      have "q \<notin> vec_elems (sched_vec s w)"
        using not_in_other_vec [OF okw w(1) q(2)] w(2) by (auto simp: q(4))
      with r have "r \<noteq> q" by auto
      with r show "\<exists>rr'. procs sb r = Some rr' \<and> idx rr' = idx rr
           \<and> get_state_vec (state rr') = get_state_vec (state rr)"
        by (simp add: pb)
    qed
    from okv' okw' nz only q(2) have inv': "proc_vec_inv sb"
      by (auto simp: proc_vec_inv_alt pb)
    have elv: "vec_elems V1 = vec_elems V - {p}"
    proof (intro set_eqI iffI)
      fix x assume "x \<in> vec_elems V1"
      then obtain j where j: "j < n" "data V1 j = Some x" by (auto simp: vec_elems_def V1_def)
      show "x \<in> vec_elems V - {p}"
      proof (cases "j = i")
        case True
        with j q \<open>0 < n\<close> have "x = q" by (simp add: V1_def)
        moreover from True j have "i < n" by simp
        with q p have "q \<noteq> p" by (auto simp: i_def)
        moreover from q nV have "q \<in> vec_elems V" by (auto simp: vec_elems_def)
        ultimately show ?thesis by simp
      next
        case False
        with j \<open>0 < n\<close> have dj: "data V j = Some x" by (simp add: V1_def)
        note dj
        moreover from j nV have "j < init V" by simp
        ultimately have "x \<in> vec_elems V" unfolding vec_elems_def by blast
        moreover have "x \<noteq> p"
        proof
          assume "x = p"
          from j nV have "j < init (sched_vec s v)" by (simp add: V_def)
          with okv sv obtain r and rr :: rust_proc where "data (sched_vec s v) j = Some r"
            "procs s r = Some rr" "idx rr = j"
            by (elim slots_okD)
          with dj \<open>x = p\<close> p have "idx pr = j" by (simp add: V_def)
          with False show False by (simp add: i_def)
        qed
        ultimately show ?thesis by simp
      qed
    next
      fix x assume "x \<in> vec_elems V - {p}"
      then obtain j where j: "j < init V" "data V j = Some x" and xp: "x \<noteq> p"
        by (auto simp: vec_elems_def)
      from j di xp have ji: "j \<noteq> i" by auto
      show "x \<in> vec_elems V1"
      proof (cases "j = n")
        case True
        with j q have "x = q" by simp
        from True ji i have "i < n" by (simp add: n_def)
        moreover from \<open>x = q\<close> q \<open>0 < n\<close> have "data V1 i = Some x" by (simp add: V1_def)
        ultimately show ?thesis by (auto simp: vec_elems_def V1_def)
      next
        case False
        with j have "j < n" by (simp add: n_def)
        moreover from ji j \<open>0 < n\<close> have "data V1 j = Some x" by (simp add: V1_def)
        ultimately show ?thesis by (auto simp: vec_elems_def V1_def)
      qed
    qed
    with pw w sv have el: "sched_elems sb = sched_elems s - {p}"
      by (auto simp: sched_elems_split [OF sv w] svs V_def)
    have pp: "procs sb p = Some pr"
    proof (cases "q = p")
      case True
      with q p have "qr = pr" by simp
      with True show ?thesis by (simp add: pb i_def)
    next
      case False
      with p show ?thesis by (simp add: pb)
    qed
    have "same_but_idx (procs s r) (procs sb r)" for r
    proof (cases "r = q")
      case True
      with q show ?thesis by (auto simp: pb same_but_idx_def)
    next
      case False
      then show ?thesis by (simp add: pb)
    qed
    then have sbi: "\<forall>r. same_but_idx (procs s r) (procs sb r)" ..
    have fr: "sched_frame s sb" and hp: "heap sb = heap s"
      by (simp_all add: sb_def sa_def vec_put_sched_fields sv)
    have in1: "init (sched_vec sb v) = init (sched_vec s v) - 1"
      and al1: "alloc (sched_vec sb v) = alloc (sched_vec s v)"
      by (simp_all add: svs sv V1_def n_def V_def)
    have oth: "\<forall>u. is_sched u \<longrightarrow> u \<noteq> v \<longrightarrow> sched_vec sb u = sched_vec s u"
      by (simp add: svs)
    from e inv' el pp sbi fr hp in1 al1 oth show ?thesis by blast
  qed
qed

lemma sched_elems_upd [simp]:
  "sched_elems (s\<lparr>procs := ps\<rparr>) = sched_elems s"
  "sched_elems (s\<lparr>heap := h\<rparr>) = sched_elems s"
  "sched_elems (s\<lparr>mem := m\<rparr>) = sched_elems s"
  "sched_elems (s\<lparr>chans := c\<rparr>) = sched_elems s"
  "sched_elems (s\<lparr>ports := po\<rparr>) = sched_elems s"
  by (simp_all add: sched_elems_def)

lemma ptr_vec_trim_spec:
  assumes inv: "proc_vec_inv s" and sv: "is_sched v"
  shows "ptr_vec_trim s v n = Inr s"
proof -
  from inv sv have "slots_ok s v" by (simp add: proc_vec_inv_alt)
  with sv have "alloc (sched_vec s v) = INIT_PTR_VEC_SZ" by (simp add: slots_ok_alt)
  with vec_get_sched [OF sv] show ?thesis by (rule ptr_vec_trim_sched)
qed

lemma moved_simps [simp]:
  "moved s a b (s'\<lparr>procs := ps\<rparr>) = moved s a b s'"
  "moved (s\<lparr>procs := ps\<rparr>) a b s' = moved s a b s'"
  "moved (s\<lparr>mem := m\<rparr>) a b s' = moved s a b s'"
  "moved s a b (s'\<lparr>chans := cs\<rparr>) = moved s a b s'"
  "moved s a b (s'\<lparr>ports := pts\<rparr>) = moved s a b s'"
  "moved s a b (s'\<lparr>rctx := rc\<rparr>) = moved s a b s'"
  "moved (s\<lparr>chans := cs\<rparr>) a b s' = moved s a b s'"
  "moved (s\<lparr>rctx := rc\<rparr>) a b s' = moved s a b s'"
  "moved s None None s"
  by (simp_all add: moved_def sched_vec_def)

lemma moved_trans:
  assumes "moved s a (Some u) s1" and "moved s1 (Some u) b s2"
  shows "moved s a b s2"
  unfolding moved_def
proof (intro allI impI)
  fix w assume w: "is_sched w"
  from assms w have
    "init (sched_vec s1 w) + (if a = Some w then 1 else 0)
       = init (sched_vec s w) + (if u = w then 1 else 0)"
    "init (sched_vec s2 w) + (if u = w then 1 else 0)
       = init (sched_vec s1 w) + (if b = Some w then 1 else 0)"
    by (simp_all add: moved_def)
  then show "init (sched_vec s2 w) + (if a = Some w then 1 else 0)
       = init (sched_vec s w) + (if b = Some w then 1 else 0)"
    by (simp split: if_splits)
qed

lemma remove_proc_spec:
  fixes pr :: rust_proc
  assumes inv: "proc_vec_inv s" and p: "procs s p = Some pr" and reg: "p \<in> sched_elems s"
  shows "returns (remove_proc_from_state_vec s p)
           (\<lambda>s1. proc_vec_inv s1 \<and> sched_elems s1 = sched_elems s - {p}
              \<and> procs s1 p = Some pr \<and> (\<forall>r. same_but_idx (procs s r) (procs s1 r))
              \<and> sched_frame s s1 \<and> heap s1 = heap s
              \<and> moved s (Some (get_state_vec (state pr))) None s1)"
proof -
  define v where "v = get_state_vec (state pr)"
  have sv: "is_sched v" by (simp add: v_def)
  from registered_slot [OF inv reg p] have i: "idx pr < init (sched_vec s v)"
    and di: "data (sched_vec s v) (idx pr) = Some p"
    by (simp_all add: v_def)
  from inv sv have "slots_ok s v" by (simp add: proc_vec_inv_alt)
  with sv have cap: "init (sched_vec s v) \<le> alloc (sched_vec s v)" by (simp add: slots_ok_alt)
  from i cap di have rd: "vec_read (sched_vec s v) (idx pr) = Inr p" by (simp add: vec_read_def)
  from proc_vec_swapdel_spec [OF inv p reg v_def] obtain sa where
    e: "proc_vec_swapdel s v p = Inr sa" and inva: "proc_vec_inv sa"
    and ela: "sched_elems sa = sched_elems s - {p}" and pa: "procs sa p = Some pr"
    and sba: "\<forall>r. same_but_idx (procs s r) (procs sa r)" and fra: "sched_frame s sa"
    and hpa: "heap sa = heap s"
    and ina: "init (sched_vec sa v) = init (sched_vec s v) - 1"
    and oth: "\<forall>w. is_sched w \<longrightarrow> w \<noteq> v \<longrightarrow> sched_vec sa w = sched_vec s w"
    by blast
  have r: "remove_proc_from_state_vec s p = Inr sa"
    using p rd e ptr_vec_trim_spec [OF inva sv]
    by (simp add: remove_proc_from_state_vec_def get_proc_vec_def v_def [symmetric]
        vec_get_sched sv)
  have "moved s (Some v) None sa"
    unfolding moved_def using ina oth i by auto
  with inva ela pa sba fra hpa show ?thesis unfolding r by (simp add: v_def)
qed

lemma add_proc_spec:
  fixes pr :: rust_proc
  assumes inv: "proc_vec_inv s" and p: "procs s p = Some pr" and new: "p \<notin> sched_elems s"
    and room: "init (sched_vec s (get_state_vec (state pr))) < INIT_PTR_VEC_SZ"
  shows "returns (add_proc_to_state_vec s p)
           (\<lambda>s1. proc_vec_inv s1 \<and> sched_elems s1 = insert p (sched_elems s)
              \<and> (\<exists>k. procs s1 = (procs s)(p \<mapsto> pr\<lparr>idx := k\<rparr>)) \<and> sched_frame s s1
              \<and> heap s1 = heap s
              \<and> moved s None (Some (get_state_vec (state pr))) s1)"
proof -
  define v where "v = get_state_vec (state pr)"
  define V where "V = sched_vec s v"
  define sa where "sa = s\<lparr>procs := (procs s)(p \<mapsto> pr\<lparr>idx := init V\<rparr>)\<rparr>"
  define V' where "V' = V\<lparr>data := (data V)(init V \<mapsto> p), init := init V + 1\<rparr>"
  define s' where "s' = vec_put sa v V'"
  have sv: "is_sched v" by (simp add: v_def)
  from other_sched [OF sv] obtain w where w: "is_sched w" "w \<noteq> v"
    and only: "\<And>u. is_sched u \<Longrightarrow> u = v \<or> u = w"
    by blast
  from inv sv w have okv: "slots_ok s v" and okw: "slots_ok s w" and nz: "procs s 0 = None"
    by (simp_all add: proc_vec_inv_alt)
  from okv sv have cap: "init V \<le> alloc V" "alloc V = INIT_PTR_VEC_SZ"
    by (simp_all add: slots_ok_alt V_def)
  from p nz have p0: "p \<noteq> 0" by auto
  from new sv w have pv: "p \<notin> vec_elems (sched_vec s v)" and pw: "p \<notin> vec_elems (sched_vec s w)"
    by (auto simp: sched_elems_iff)
  have ga: "vec_get sa v = Inr V" by (simp add: sa_def V_def vec_get_sched sv)
  have a: "add_proc_to_state_vec s p = ptr_vec_push sa v p"
    using p by (simp add: add_proc_to_state_vec_def get_proc_vec_def v_def [symmetric]
        vec_get_sched sv sa_def V_def)
  have svs: "sched_vec s' u = (if u = v then V' else sched_vec s u)" if "is_sched u" for u
    using that sv by (simp add: s'_def sa_def sched_vec_vec_put)
  have ps: "procs s' = (procs s)(p \<mapsto> pr\<lparr>idx := init V\<rparr>)"
    by (simp add: s'_def sa_def vec_put_sched_fields sv)
  have okv': "slots_ok s' v"
    unfolding slots_ok_alt [OF sv] svs [OF sv]
  proof (intro conjI allI impI; simp)
    from cap room show "init V' \<le> alloc V'" and "alloc V' = INIT_PTR_VEC_SZ"
      by (auto simp: V'_def V_def v_def)
  next
    fix j assume "j < init V'"
    then have j: "j < init V + 1" by (simp add: V'_def)
    show "\<exists>r. data V' j = Some r \<and> (\<exists>rr. procs s' r = Some rr \<and> idx rr = j
          \<and> get_state_vec (state rr) = v)"
    proof (cases "j = init V")
      case True
      then show ?thesis by (simp add: V'_def ps v_def)
    next
      case False
      with j have jj: "j < init (sched_vec s v)" by (simp add: V_def)
      with okv sv obtain r and rr :: rust_proc where r: "data (sched_vec s v) j = Some r"
        "procs s r = Some rr" "idx rr = j" "get_state_vec (state rr) = v"
        by (elim slots_okD)
      from jj r(1) have "r \<in> vec_elems (sched_vec s v)" unfolding vec_elems_def by blast
      with pv have "r \<noteq> p" by auto
      with r False show ?thesis by (simp add: V'_def ps V_def)
    qed
  qed
  have okw': "slots_ok s' w"
  proof (rule slots_ok_transfer [OF w(1) okw])
    show "sched_vec s' w = sched_vec s w" using w by (simp add: svs)
  next
    fix r and rr :: rust_proc
    assume r: "r \<in> vec_elems (sched_vec s w)" "procs s r = Some rr"
    with pw have "r \<noteq> p" by auto
    with r show "\<exists>rr'. procs s' r = Some rr' \<and> idx rr' = idx rr
           \<and> get_state_vec (state rr') = get_state_vec (state rr)"
      by (simp add: ps)
  qed
  from okv' okw' nz only p0 have inv': "proc_vec_inv s'"
    by (auto simp: proc_vec_inv_alt ps)
  have "vec_elems V' = insert p (vec_elems V)"
  proof (intro set_eqI iffI)
    fix x assume "x \<in> vec_elems V'"
    then obtain j where j: "j < init V + 1" "data V' j = Some x"
      by (auto simp: vec_elems_def V'_def)
    show "x \<in> insert p (vec_elems V)"
    proof (cases "j = init V")
      case True
      with j show ?thesis by (simp add: V'_def)
    next
      case False
      with j have "j < init V" "data V j = Some x" by (simp_all add: V'_def)
      then have "x \<in> vec_elems V" unfolding vec_elems_def by blast
      then show ?thesis by simp
    qed
  next
    fix x assume "x \<in> insert p (vec_elems V)"
    then show "x \<in> vec_elems V'"
    proof
      assume "x = p"
      then have "data V' (init V) = Some x" "init V < init V'" by (simp_all add: V'_def)
      then show ?thesis unfolding vec_elems_def by blast
    next
      assume "x \<in> vec_elems V"
      then obtain j where j: "j < init V" "data V j = Some x" by (auto simp: vec_elems_def)
      then have "data V' j = Some x" "j < init V'" by (simp_all add: V'_def)
      then show ?thesis unfolding vec_elems_def by blast
    qed
  qed
  then have el: "sched_elems s' = insert p (sched_elems s)"
    using w sv by (simp add: sched_elems_split [OF sv w] svs V_def)
  have fr: "sched_frame s s'" and hp: "heap s' = heap s"
    by (simp_all add: s'_def sa_def vec_put_sched_fields sv)
  have mv: "moved s None (Some v) s'"
    unfolding moved_def by (simp add: svs V'_def V_def)
  from ps have "\<exists>k. procs s' = (procs s)(p \<mapsto> pr\<lparr>idx := k\<rparr>)" ..
  with inv' el fr hp mv have post: "proc_vec_inv s' \<and> sched_elems s' = insert p (sched_elems s)
              \<and> (\<exists>k. procs s' = (procs s)(p \<mapsto> pr\<lparr>idx := k\<rparr>)) \<and> sched_frame s s'
              \<and> heap s' = heap s \<and> moved s None (Some (get_state_vec (state pr))) s'"
    by (simp add: v_def)
  from room cap have lt: "init V < alloc V" by (simp add: V_def v_def)
  have "ptr_vec_push sa v p = Inr s'"
    using ptr_vec_push_sched [OF ga lt cap(2)] by (simp add: s'_def V'_def)
  with post show ?thesis unfolding a by simp
qed

text \<open>
  The invariant survives any change of the proc heap that leaves the vectors alone and
  keeps \<open>idx\<close> and the vector of the state of every registered proc.
\<close>

lemma proc_vec_inv_procs_upd:
  assumes inv: "proc_vec_inv s"
    and vecs: "running_procs s' = running_procs s" "blocked_procs s' = blocked_procs s"
    and nz: "procs s' 0 = None"
    and recs: "\<And>r rr. r \<in> sched_elems s \<Longrightarrow> procs s r = Some rr \<Longrightarrow>
        \<exists>rr'. procs s' r = Some rr' \<and> idx rr' = idx rr
           \<and> get_state_vec (state rr') = get_state_vec (state rr)"
  shows "proc_vec_inv s'"
  unfolding proc_vec_inv_alt
proof (intro conjI allI impI)
  show "procs s' 0 = None" by (rule nz)
next
  fix v assume v: "is_sched v"
  with inv have ok: "slots_ok s v" by (simp add: proc_vec_inv_alt)
  from vecs have same: "sched_vec s' v = sched_vec s v" by (simp add: sched_vec_def)
  show "slots_ok s' v"
  proof (rule slots_ok_transfer [OF v ok same])
    fix r and rr :: rust_proc
    assume "r \<in> vec_elems (sched_vec s v)" and r: "procs s r = Some rr"
    with v have "r \<in> sched_elems s" by (auto simp: sched_elems_iff)
    from recs [OF this r] show "\<exists>rr'. procs s' r = Some rr' \<and> idx rr' = idx rr
           \<and> get_state_vec (state rr') = get_state_vec (state rr)" .
  qed
qed


lemma proc_state_transition_spec:
  fixes pr :: rust_proc
  assumes inv: "proc_vec_inv s" and p: "procs s p = Some pr" and st: "state pr = src"
    and reg: "p \<in> sched_elems s"
    and room: "get_state_vec dst = get_state_vec src
               \<or> init (sched_vec s (get_state_vec dst)) < INIT_PTR_VEC_SZ"
  shows "returns (proc_state_transition s p src dst)
           (\<lambda>s2. proc_vec_inv s2 \<and> sched_elems s2 = sched_elems s
              \<and> (\<exists>k. procs s2 p = Some (pr\<lparr>state := dst, idx := k\<rparr>))
              \<and> (\<forall>r. r \<noteq> p \<longrightarrow> same_but_idx (procs s r) (procs s2 r))
              \<and> sched_frame s s2 \<and> heap s2 = heap s
              \<and> moved s (Some (get_state_vec src)) (Some (get_state_vec dst)) s2)"
proof -
  from inv p have p0: "p \<noteq> 0" by (auto simp: proc_vec_inv_def)
  have e: "proc_state_transition s p src dst
      = bindE (remove_proc_from_state_vec s p) (\<lambda>s1.
          (case procs s1 p of None \<Rightarrow> Inl Invalid_pointer | Some pr1 \<Rightarrow>
           add_proc_to_state_vec (s1\<lparr>procs := (procs s1)(p \<mapsto> pr1\<lparr>state := dst\<rparr>)\<rparr>) p))"
    using p st by (simp add: proc_state_transition_def)
  show ?thesis unfolding e
  proof (rule returns_bindE [OF remove_proc_spec [OF inv p reg]], goal_cases)
    case (1 s1)
    then have inv1: "proc_vec_inv s1" and el1: "sched_elems s1 = sched_elems s - {p}"
      and p1: "procs s1 p = Some pr" and sb1: "\<And>r. same_but_idx (procs s r) (procs s1 r)"
      and fr1: "sched_frame s s1" and hp1: "heap s1 = heap s"
      and mv1: "moved s (Some (get_state_vec src)) None s1"
      by (simp_all add: st)
    define s1' where "s1' = s1\<lparr>procs := (procs s1)(p \<mapsto> pr\<lparr>state := dst\<rparr>)\<rparr>"
    have inv1': "proc_vec_inv s1'"
    proof (rule proc_vec_inv_procs_upd [OF inv1])
      from inv1 p0 show "procs s1' 0 = None" by (simp add: s1'_def proc_vec_inv_def)
    next
      fix r and rr :: rust_proc
      assume "r \<in> sched_elems s1" and r: "procs s1 r = Some rr"
      with el1 have "r \<noteq> p" by simp
      with r show "\<exists>rr'. procs s1' r = Some rr' \<and> idx rr' = idx rr
           \<and> get_state_vec (state rr') = get_state_vec (state rr)"
        by (simp add: s1'_def)
    qed (simp_all add: s1'_def)
    have p1': "procs s1' p = Some (pr\<lparr>state := dst\<rparr>)" by (simp add: s1'_def)
    have new: "p \<notin> sched_elems s1'" using el1 by (simp add: s1'_def)
    from registered_slot [OF inv reg p] st
    have pos: "0 < init (sched_vec s (get_state_vec src))" by auto
    from mv1 have "init (sched_vec s1 (get_state_vec dst))
        + (if get_state_vec src = get_state_vec dst then 1 else 0)
        = init (sched_vec s (get_state_vec dst))"
      by (simp add: moved_def)
    moreover from inv have "slots_ok s (get_state_vec src)" by (simp add: proc_vec_inv_alt)
    then have "init (sched_vec s (get_state_vec src)) \<le> INIT_PTR_VEC_SZ"
      by (simp add: slots_ok_alt)
    ultimately have room1: "init (sched_vec s1' (get_state_vec (state (pr\<lparr>state := dst\<rparr>))))
        < INIT_PTR_VEC_SZ"
      using room pos by (auto simp: s1'_def split: if_splits)
    have mv1': "moved s (Some (get_state_vec src)) None s1'"
      using mv1 by (simp add: s1'_def)
    have "returns (add_proc_to_state_vec s1' p)
           (\<lambda>s2. proc_vec_inv s2 \<and> sched_elems s2 = sched_elems s
              \<and> (\<exists>k. procs s2 p = Some (pr\<lparr>state := dst, idx := k\<rparr>))
              \<and> (\<forall>r. r \<noteq> p \<longrightarrow> same_but_idx (procs s r) (procs s2 r))
              \<and> sched_frame s s2 \<and> heap s2 = heap s
              \<and> moved s (Some (get_state_vec src)) (Some (get_state_vec dst)) s2)"
    proof (rule returns_mono [OF add_proc_spec [OF inv1' p1' new room1]], goal_cases)
      case (1 s2)
      then obtain k where inv2: "proc_vec_inv s2"
        and el2: "sched_elems s2 = insert p (sched_elems s1')"
        and p2: "procs s2 = (procs s1')(p \<mapsto> pr\<lparr>state := dst, idx := k\<rparr>)"
        and fr2: "sched_frame s1' s2" and hp2: "heap s2 = heap s1'"
        and mv2: "moved s1' None (Some (get_state_vec dst)) s2"
        by auto
      from el2 el1 reg have "sched_elems s2 = sched_elems s" by (auto simp: s1'_def)
      moreover from p2 have "procs s2 p = Some (pr\<lparr>state := dst, idx := k\<rparr>)" by simp
      then have "\<exists>k. procs s2 p = Some (pr\<lparr>state := dst, idx := k\<rparr>)" ..
      moreover have "same_but_idx (procs s r) (procs s2 r)" if "r \<noteq> p" for r
        using that sb1 [of r] by (simp add: p2 s1'_def)
      moreover from fr1 fr2 have "sched_frame s s2" by (simp add: sched_frame_def s1'_def)
      moreover from hp1 hp2 have "heap s2 = heap s" by (simp add: s1'_def)
      moreover have "moved s (Some (get_state_vec src)) (Some (get_state_vec dst)) s2"
        unfolding moved_def
      proof (intro allI impI)
        fix u assume u: "is_sched u"
        from mv1' u have "init (sched_vec s1' u) + (if Some (get_state_vec src) = Some u then 1 else 0)
            = init (sched_vec s u)"
          by (simp add: moved_def)
        moreover from mv2 u have "init (sched_vec s2 u)
            = init (sched_vec s1' u) + (if Some (get_state_vec dst) = Some u then 1 else 0)"
          by (simp add: moved_def)
        ultimately show "init (sched_vec s2 u) + (if Some (get_state_vec src) = Some u then 1 else 0)
            = init (sched_vec s u) + (if Some (get_state_vec dst) = Some u then 1 else 0)"
          by simp
      qed
      ultimately show ?case using inv2 by blast
    qed
    then show ?case by (simp add: p1 s1'_def)
  qed
qed


lemma proc_vec_inv_cong_imp:
  assumes "proc_vec_inv s" and "procs s' = procs s" and "running_procs s' = running_procs s"
    and "blocked_procs s' = blocked_procs s"
  shows "proc_vec_inv s'"
proof (rule proc_vec_inv_procs_upd [OF assms(1)])
  from assms(1,2) show "procs s' 0 = None" by (simp add: proc_vec_inv_def)
next
  fix r and rr :: rust_proc
  assume "procs s r = Some rr"
  then show "\<exists>rr'. procs s' r = Some rr' \<and> idx rr' = idx rr
           \<and> get_state_vec (state rr') = get_state_vec (state rr)"
    by (simp add: assms(2))
qed (fact assms)+

lemma proc_vec_inv_cong:
  assumes "procs s' = procs s" and "running_procs s' = running_procs s"
    and "blocked_procs s' = blocked_procs s"
  shows "proc_vec_inv s' = proc_vec_inv s"
proof
  assume "proc_vec_inv s'"
  then show "proc_vec_inv s"
    by (rule proc_vec_inv_cong_imp) (simp_all add: assms)
next
  assume "proc_vec_inv s"
  then show "proc_vec_inv s'"
    by (rule proc_vec_inv_cong_imp) (simp_all add: assms)
qed

lemma proc_vec_inv_upd [simp]:
  "proc_vec_inv (s\<lparr>mem := m\<rparr>) = proc_vec_inv s"
  "proc_vec_inv (s\<lparr>chans := c\<rparr>) = proc_vec_inv s"
  "proc_vec_inv (s\<lparr>ports := po\<rparr>) = proc_vec_inv s"
  "proc_vec_inv (s\<lparr>heap := h\<rparr>) = proc_vec_inv s"
  "proc_vec_inv (s\<lparr>rctx := r\<rparr>) = proc_vec_inv s"
  "proc_vec_inv (s\<lparr>blocks := b\<rparr>) = proc_vec_inv s"
  "proc_vec_inv (s\<lparr>stks := k\<rparr>) = proc_vec_inv s"
  by (rule proc_vec_inv_cong; simp)+

text \<open>The two outcomes of \<open>attempt_rendezvous\<close> on two live procs.\<close>

lemma attempt_rendezvous_misses:
  fixes ps pd :: rust_proc
  assumes "procs s src = Some ps" and "procs s dst = Some pd" and "src \<noteq> 0" and "dst \<noteq> 0"
    and "\<not> (state ps = proc_state_blocked_writing \<and> state pd = proc_state_blocked_reading)"
  shows "attempt_rendezvous s src dst = Inr (False, s)"
  using assms by (auto simp: attempt_rendezvous_def)


section \<open>C2: the rendezvous\<close>

text \<open>
  C2 says that \<open>attempt_rendezvous\<close>, for a source that is blocked writing and a
  destination that is blocked reading, stores the value, moves both procs to the running
  vector and returns true. While the running vector has room for both it does (lemma
  \<open>attempt_rendezvous_meets\<close>; with other states it returns false and changes nothing,
  lemma \<open>attempt_rendezvous_misses\<close>). On the crowded machine seven procs are running,
  the root proc (0x40000) is blocked reading and the eighth child (0x180000) is blocked
  writing. The rendezvous stores the value and pushes the source into slot 7 of the running
  vector; the push of the destination then finds \<open>init = alloc = 8\<close>, doubles \<open>alloc\<close> and
  moves the vector to a block of 16 bytes, which carries over the first two slots. The
  call returns true with the source in state running and \<open>idx = 7\<close>, and slot 7 of the
  running vector holds no proc: the source is in neither scheduler vector.
\<close>

theorem attempt_rendezvous_loses_src:
  "(case crowded_ready of
      Inl e \<Rightarrow> False
    | Inr s \<Rightarrow>
        alloc (running_procs s) = 8 \<and> init (running_procs s) = 7
        \<and> init (blocked_procs s) = 2
        \<and> data (blocked_procs s) 0 = Some 0x40000 \<and> data (blocked_procs s) 1 = Some 0x180000
        \<and> (case procs s 0x180000 of None \<Rightarrow> False
            | Some ps \<Rightarrow> state ps = proc_state_blocked_writing \<and> upcall_args ps 1 = 0xdeadbeef
                \<and> idx ps = 1)
        \<and> (case procs s 0x40000 of None \<Rightarrow> False
            | Some pd \<Rightarrow> state pd = proc_state_blocked_reading \<and> upcall_args pd 0 = 0x5ff0c
                \<and> idx pd = 0)
        \<and> (case attempt_rendezvous s 0x180000 0x40000 of
              Inl e \<Rightarrow> False
            | Inr (r, s') \<Rightarrow>
                r \<and> mem s' 0x5ff0c = 0xdeadbeef
                \<and> (case procs s' 0x180000 of None \<Rightarrow> False
                    | Some ps \<Rightarrow> state ps = proc_state_running \<and> idx ps = 7)
                \<and> (case procs s' 0x40000 of None \<Rightarrow> False
                    | Some pd \<Rightarrow> state pd = proc_state_running \<and> idx pd = 8)
                \<and> alloc (running_procs s') = 16 \<and> init (running_procs s') = 9
                \<and> data (running_procs s') 7 = None
                \<and> data (running_procs s') 8 = Some 0x40000
                \<and> data (running_procs s') 2 = None \<and> data (running_procs s') 3 = None
                \<and> data (running_procs s') 4 = None \<and> data (running_procs s') 5 = None
                \<and> data (running_procs s') 6 = None
                \<and> init (blocked_procs s') = 0
                \<and> 0x180000 \<notin> vec_elems (running_procs s')
                \<and> 0x180000 \<notin> vec_elems (blocked_procs s')))"
  by (simp add: crowded_ready_def crowded_setup_def spawn_sched_def wide_started_def
      wide_boot_def rt_eval vec_elems_def Ex_less_Suc)

section \<open>Ports and channels\<close>

lemma procs_frame_refl [simp]: "procs_frame s s"
  by (simp add: procs_frame_def)

lemma procs_frame_trans: "procs_frame s s1 \<Longrightarrow> procs_frame s1 s2 \<Longrightarrow> procs_frame s s2"
  by (simp add: procs_frame_def)

lemma procs_frame_upd [simp]:
  "procs_frame s (s'\<lparr>heap := h\<rparr>) = procs_frame s s'"
  "procs_frame s (s'\<lparr>chans := c\<rparr>) = procs_frame s s'"
  "procs_frame s (s'\<lparr>ports := po\<rparr>) = procs_frame s s'"
  "procs_frame s (s'\<lparr>blocks := b\<rparr>) = procs_frame s s'"
  "procs_frame s (s'\<lparr>rctx := r\<rparr>) = procs_frame s s'"
  "procs_frame (s\<lparr>heap := h\<rparr>) s' = procs_frame s s'"
  "procs_frame (s\<lparr>chans := c\<rparr>) s' = procs_frame s s'"
  "procs_frame (s\<lparr>ports := po\<rparr>) s' = procs_frame s s'"
  by (simp_all add: procs_frame_def)


lemma vec_put_procs_frame [simp]:
  "\<not> is_sched v \<Longrightarrow> procs_frame s0 (vec_put s v x) = procs_frame s0 s"
  by (cases v) (simp_all add: vec_put_def is_sched_def procs_frame_def split: option.splits)

lemma ptr_vec_push_frame:
  assumes "ptr_vec_push s v p = Inr s'" and "\<not> is_sched v"
  shows "procs_frame s s'"
  using ptr_vec_push_Inr [OF assms(1)] assms(2) by auto

lemma ptr_vec_trim_frame:
  assumes "ptr_vec_trim s v n = Inr s'" and "\<not> is_sched v"
  shows "procs_frame s s'"
  using ptr_vec_trim_Inr [OF assms(1)] assms(2) by auto

lemma ptr_vec_swapdel_frame:
  assumes "ptr_vec_swapdel s v i = Inr s'" and "\<not> is_sched v"
  shows "procs_frame s s'"
proof -
  from assms(1) obtain vec :: ptr_vec where v: "vec_get s v = Inr vec"
    by (auto simp: ptr_vec_swapdel_def bindE_eq_Inr)
  from ptr_vec_swapdel_Inr [OF assms(1) v] assms(2) show ?thesis by simp
qed

lemma init_ptr_vec_frame:
  assumes "init_ptr_vec s v = Inr s'" and "\<not> is_sched v"
  shows "procs_frame s s'"
  using assms by (auto simp: init_ptr_vec_def bindE_eq_Inr dest!: xalloc_Inr)

lemma fini_ptr_vec_frame:
  assumes "fini_ptr_vec s v = Inr s'" and "\<not> is_sched v"
  shows "procs_frame s s'"
  using assms by (auto simp: fini_ptr_vec_def bindE_eq_Inr)

lemma chan_vec_swapdel_frame:
  assumes "chan_vec_swapdel s v c = Inr s'" and "\<not> is_sched v"
  shows "procs_frame s s'"
proof -
  from assms(1) obtain ch :: rust_chan and s1 where
    sd: "ptr_vec_swapdel s v (chan_idx ch) = Inr s1"
    and s': "s' = s1 \<or> (\<exists>cs. s' = s1\<lparr>chans := cs\<rparr>)"
    by (auto simp: chan_vec_swapdel_def bindE_eq_Inr split: option.splits if_splits)
  from ptr_vec_swapdel_frame [OF sd assms(2)] s' show ?thesis by auto
qed

lemma returns_InrD: "returns r Q \<Longrightarrow> r = Inr x \<Longrightarrow> Q x"
  by (simp add: returns_def)

lemma sched_frameD:
  assumes "sched_frame s s'"
  shows "mem s' = mem s" "ports s' = ports s" "chans s' = chans s" "progs s' = progs s"
    "rctx s' = rctx s"
  using assms by (simp_all add: sched_frame_def)


lemma writers_okD:
  fixes po :: rust_port
  assumes "writers_ok s P" and "ports s P = Some po"
  shows "init (writers po) \<le> alloc (writers po)" and "alloc (writers po) = INIT_PTR_VEC_SZ"
    and "i < init (writers po) \<Longrightarrow>
           \<exists>c ch. data (writers po) i = Some c \<and> chans s c = Some ch \<and> chan_idx ch = i"
  using assms by (auto simp: writers_ok_def case_case_ex)

lemma writers_okI:
  fixes po :: rust_port
  assumes "ports s P = Some po" and "init (writers po) \<le> alloc (writers po)"
    and "alloc (writers po) = INIT_PTR_VEC_SZ"
    and "\<And>i. i < init (writers po) \<Longrightarrow>
           \<exists>c ch. data (writers po) i = Some c \<and> chans s c = Some ch \<and> chan_idx ch = i"
  shows "writers_ok s P"
  using assms by (auto simp: writers_ok_def case_case_ex)

lemma writers_ok_cong:
  assumes "ports s' = ports s" and "chans s' = chans s"
  shows "writers_ok s' P = writers_ok s P"
  unfolding writers_ok_def assms ..


text \<open>A receive on a port with no queued writer blocks the receiver.\<close>

lemma upcall_recv_blocks:
  fixes pb :: rust_proc and po :: rust_port
  assumes inv: "proc_vec_inv s" and b: "procs s b = Some pb"
    and st: "state pb = proc_state_calling_c" and reg: "b \<in> sched_elems s"
    and po: "ports s P = Some po" "port_proc po = b" "init (writers po) = 0" and P: "P \<noteq> 0"
    and room: "init (blocked_procs s) < INIT_PTR_VEC_SZ"
  shows "returns (upcall_recv s b P)
     (\<lambda>s'. proc_vec_inv s' \<and> sched_elems s' = sched_elems s
        \<and> (\<exists>k. procs s' b = Some (pb\<lparr>state := proc_state_blocked_reading, idx := k\<rparr>))
        \<and> (\<forall>r. r \<noteq> b \<longrightarrow> same_but_idx (procs s r) (procs s' r))
        \<and> sched_frame s s' \<and> heap s' = heap s
        \<and> moved s (Some Running_procs) (Some Blocked_procs) s')"
proof -
  from inv b have b0: "b \<noteq> 0" by (auto simp: proc_vec_inv_def)
  have room': "get_state_vec proc_state_blocked_reading = get_state_vec proc_state_calling_c
      \<or> init (sched_vec s (get_state_vec proc_state_blocked_reading)) < INIT_PTR_VEC_SZ"
    using room by (simp add: sched_vec_def)
  show ?thesis
    unfolding upcall_recv_def using po P b0
    apply simp
  proof (rule returns_bindE [OF proc_state_transition_spec [OF inv b st reg room']], goal_cases)
    case (1 s1)
    then have "sched_frame s s1" by simp
    from sched_frameD(2) [OF this] po have "vec_get s1 (Writers P) = Inr (writers po)"
      by (simp add: vec_get_def)
    with po 1 show ?case by simp
  qed
qed


text \<open>
  A send to a port whose owner is not reading queues the channel in the writers of the
  port and leaves the sender blocked writing.
\<close>

lemma upcall_send_queues:
  fixes pa pb :: rust_proc and ch :: rust_chan and po :: rust_port
  assumes inv: "proc_vec_inv s" and a: "procs s a = Some pa"
    and sta: "state pa = proc_state_calling_c" and rega: "a \<in> sched_elems s"
    and ch: "chans s c = Some ch" "chan_port ch = P" "\<not> queued ch" and c: "c \<noteq> 0" and P: "P \<noteq> 0"
    and po: "ports s P = Some po" "port_proc po = b"
    and wv: "alloc (writers po) = INIT_PTR_VEC_SZ" "init (writers po) < INIT_PTR_VEC_SZ"
    and b: "procs s b = Some pb" and stb: "state pb \<noteq> proc_state_blocked_reading"
    and ne: "a \<noteq> b"
    and room: "init (blocked_procs s) < INIT_PTR_VEC_SZ"
  shows "returns (upcall_send s a c)
     (\<lambda>s'. (\<exists>k. procs s' a = Some (pa\<lparr>state := proc_state_blocked_writing, idx := k\<rparr>))
        \<and> (\<forall>r. r \<noteq> a \<longrightarrow> same_but_idx (procs s r) (procs s' r))
        \<and> proc_vec_inv s' \<and> sched_elems s' = sched_elems s \<and> mem s' = mem s
        \<and> chans s' = (chans s)(c \<mapsto> ch\<lparr>chan_proc := a, chan_idx := init (writers po),
                                       queued := True\<rparr>)
        \<and> ports s' = (ports s)(P \<mapsto> po\<lparr>writers := (writers po)
               \<lparr>data := (data (writers po))(init (writers po) \<mapsto> c),
                init := init (writers po) + 1\<rparr>\<rparr>)
        \<and> moved s (Some Running_procs) (Some Blocked_procs) s')"
proof -
  from inv a b have a0: "a \<noteq> 0" and b0: "b \<noteq> 0" by (auto simp: proc_vec_inv_def)
  let ?s1 = "s\<lparr>chans := (chans s)(c \<mapsto> ch\<lparr>chan_proc := a\<rparr>)\<rparr>"
  have inv1: "proc_vec_inv ?s1" and a1: "procs ?s1 a = Some pa" and rega1: "a \<in> sched_elems ?s1"
    using inv a rega by simp_all
  have room1: "get_state_vec proc_state_blocked_writing = get_state_vec proc_state_calling_c
      \<or> init (sched_vec ?s1 (get_state_vec proc_state_blocked_writing)) < INIT_PTR_VEC_SZ"
    using room by (simp add: sched_vec_def)
  show ?thesis
    unfolding upcall_send_def using ch c P po b0
    apply (simp add: Let_def)
  proof (rule returns_bindE [OF proc_state_transition_spec [OF inv1 a1 sta rega1 room1]],
      goal_cases)
    case (1 s2)
    from 1 obtain k where inv2: "proc_vec_inv s2" and el2: "sched_elems s2 = sched_elems ?s1"
      and a2: "procs s2 a = Some (pa\<lparr>state := proc_state_blocked_writing, idx := k\<rparr>)"
      and sb2: "\<And>r. r \<noteq> a \<Longrightarrow> same_but_idx (procs ?s1 r) (procs s2 r)"
      and fr2: "sched_frame ?s1 s2"
      and mv2: "moved ?s1 (Some Running_procs) (Some Blocked_procs) s2"
      by auto
    from sb2 [of b] ne b obtain k' where b2: "procs s2 b = Some (pb\<lparr>idx := k'\<rparr>)"
      by (auto elim: same_but_idx_SomeD)
    from sched_frameD(2) [OF fr2] po have po2: "ports s2 P = Some po"
      and ps2: "ports s2 = ports s"
      by simp_all
    from sched_frameD(3) [OF fr2] ch have ch2: "chans s2 c = Some (ch\<lparr>chan_proc := a\<rparr>)"
      and chs2: "chans s2 = (chans s)(c \<mapsto> ch\<lparr>chan_proc := a\<rparr>)"
      by simp_all
    have "\<not> (state (pa\<lparr>state := proc_state_blocked_writing, idx := k\<rparr>) = proc_state_blocked_writing
        \<and> state (pb\<lparr>idx := k'\<rparr>) = proc_state_blocked_reading)"
      using stb by simp
    from attempt_rendezvous_misses [OF a2 b2 a0 b0 this]
    have ar: "attempt_rendezvous s2 a b = Inr (False, s2)" .
    have vg: "vec_get s2 (Writers P) = Inr (writers po)" using po2 by (simp add: vec_get_def)
    let ?s3 = "s2\<lparr>chans := (chans s)(c \<mapsto> ch\<lparr>chan_proc := a, chan_idx := init (writers po)\<rparr>)\<rparr>"
    have vg3: "vec_get ?s3 (Writers P) = Inr (writers po)"
      using po2 by (simp add: vec_get_def)
    from wv have lt: "init (writers po) < alloc (writers po)" by simp
    note push = ptr_vec_push_sched [OF vg3 lt wv(1), of c]
    have "same_but_idx (procs s r) (procs s2 r)" if "r \<noteq> a" for r
      using sb2 [OF that] by simp
    moreover have "mem s2 = mem s" using sched_frameD(1) [OF fr2] by simp
    moreover have "moved s (Some Running_procs) (Some Blocked_procs) s2"
      using mv2 by simp
    ultimately show ?case
      using po2 po ar ch2 ch vg a2 inv2 el2
      by (simp add: chs2 push vec_put_def ps2) blast
  qed
qed


section \<open>A turn of the loop with a send or a receive\<close>

lemma run_proc_send_eq:
  fixes pr :: rust_proc
  assumes "procs s p = Some pr" "y_state y = proc_state_calling_c" "y_code y = upcall_code_send"
  shows "run_proc s p y
       = bindE (upcall_send (enter_proc s p pr y) p (y_args y 0)) (\<lambda>s1. upcall_return s1 p)"
  using assms
  by (cases "upcall_send (enter_proc s p pr y) p (y_args y 0)")
     (auto simp: run_proc_def c_to_proc_glue_def handle_upcall_def enter_proc_def
        upcall_return_def Let_def split: option.splits)

lemma run_proc_recv_eq:
  fixes pr :: rust_proc
  assumes "procs s p = Some pr" "y_state y = proc_state_calling_c" "y_code y = upcall_code_recv"
  shows "run_proc s p y
       = bindE (upcall_recv (enter_proc s p pr y) p (y_args y 1)) (\<lambda>s1. upcall_return s1 p)"
  using assms
  by (cases "upcall_recv (enter_proc s p pr y) p (y_args y 1)")
     (auto simp: run_proc_def c_to_proc_glue_def handle_upcall_def enter_proc_def
        upcall_return_def Let_def split: option.splits)

lemma proc_vec_inv_rec_upd:
  fixes pr pr' :: rust_proc
  assumes "proc_vec_inv s" and "procs s p = Some pr" and "idx pr' = idx pr"
    and "get_state_vec (state pr') = get_state_vec (state pr)"
  shows "proc_vec_inv (s\<lparr>procs := (procs s)(p \<mapsto> pr')\<rparr>)"
proof (rule proc_vec_inv_procs_upd [OF assms(1)])
  from assms(1,2) have "p \<noteq> 0" by (auto simp: proc_vec_inv_def)
  with assms(1) show "procs (s\<lparr>procs := (procs s)(p \<mapsto> pr')\<rparr>) 0 = None"
    by (simp add: proc_vec_inv_def)
next
  fix r and rr :: rust_proc
  assume "r \<in> sched_elems s" "procs s r = Some rr"
  with assms(2-4) show "\<exists>rr'. procs (s\<lparr>procs := (procs s)(p \<mapsto> pr')\<rparr>) r = Some rr'
      \<and> idx rr' = idx rr \<and> get_state_vec (state rr') = get_state_vec (state rr)"
    by auto
qed simp_all

lemma enter_proc_simps [simp]:
  "procs (enter_proc s p pr y) = (procs s)(p \<mapsto> pr\<lparr>state := y_state y, upcall_code := y_code y,
                                   upcall_args := y_args y, sp := y_sp y\<rparr>)"
  "running_procs (enter_proc s p pr y) = running_procs s"
  "blocked_procs (enter_proc s p pr y) = blocked_procs s"
  "ports (enter_proc s p pr y) = ports s"
  "chans (enter_proc s p pr y) = chans s"
  "sched_elems (enter_proc s p pr y) = sched_elems s"
  "rctx (enter_proc s p pr y) = rctx s"
  "heap (enter_proc s p pr y) = heap s"
  by (simp_all add: enter_proc_def)

lemma writers_ok_enter_proc [simp]:
  "writers_ok (enter_proc s p pr y) P = writers_ok s P"
  by (rule writers_ok_cong) simp_all

lemma enter_proc_inv:
  fixes pr :: rust_proc
  assumes "proc_vec_inv s" and "procs s p = Some pr"
    and "get_state_vec (y_state y) = get_state_vec (state pr)"
  shows "proc_vec_inv (enter_proc s p pr y)"
  using proc_vec_inv_rec_upd [OF assms(1,2), of "pr\<lparr>state := y_state y, upcall_code := y_code y,
                                   upcall_args := y_args y, sp := y_sp y\<rparr>"] assms(3)
  by (simp add: enter_proc_def)

lemma running_elem_class:
  fixes pr :: rust_proc
  assumes "proc_vec_inv s" and "p \<in> vec_elems (running_procs s)" and "procs s p = Some pr"
  shows "get_state_vec (state pr) = Running_procs" and "p \<in> sched_elems s"
  using assms
  by (auto simp: proc_vec_inv_def slots_ok_def vec_get_def vec_elems_def sched_elems_def
      split: option.splits)


lemma moved_enter_proc [simp]:
  "moved (enter_proc s p pr y) a b s' = moved s a b s'"
  by (simp add: moved_def sched_vec_def)

lemma run_recv_blocks:
  fixes pb :: rust_proc and po :: rust_port
  assumes inv: "proc_vec_inv s" and b: "procs s b = Some pb"
    and rb: "b \<in> vec_elems (running_procs s)"
    and po: "ports s P = Some po" "port_proc po = b" "init (writers po) = 0" and P: "P \<noteq> 0"
    and room: "init (blocked_procs s) < INIT_PTR_VEC_SZ"
    and y: "y_state y = proc_state_calling_c" "y_code y = upcall_code_recv" "y_args y 1 = P"
  shows "returns (run_proc s b y)
     (\<lambda>s1. proc_vec_inv s1 \<and> sched_elems s1 = sched_elems s
        \<and> (\<exists>pb1. procs s1 b = Some pb1 \<and> state pb1 = proc_state_blocked_reading
              \<and> upcall_args pb1 = y_args y)
        \<and> (\<forall>r. r \<noteq> b \<longrightarrow> same_but_idx (procs s r) (procs s1 r))
        \<and> ports s1 = ports s \<and> chans s1 = chans s
        \<and> moved s (Some Running_procs) (Some Blocked_procs) s1)"
proof -
  note cl = running_elem_class [OF inv rb b]
  let ?sy = "enter_proc s b pb y"
  let ?pby = "pb\<lparr>state := y_state y, upcall_code := y_code y, upcall_args := y_args y,
                sp := y_sp y\<rparr>"
  have invy: "proc_vec_inv ?sy" by (rule enter_proc_inv [OF inv b]) (simp add: y cl)
  have pby: "procs ?sy b = Some ?pby" by simp
  have sty: "state ?pby = proc_state_calling_c" by (simp add: y)
  have regy: "b \<in> sched_elems ?sy" using cl(2) by simp
  have poy: "ports ?sy P = Some po" using po by simp
  have roomy: "init (blocked_procs ?sy) < INIT_PTR_VEC_SZ" using room by simp
  note up = upcall_recv_blocks [OF invy pby sty regy poy po(2,3) P roomy]
  show ?thesis
    unfolding run_proc_recv_eq [OF b y(1,2)] y(3)
  proof (rule returns_bindE [OF up], goal_cases)
    case (1 s1)
    then obtain k where inv1: "proc_vec_inv s1"
      and el1: "sched_elems s1 = sched_elems ?sy"
      and b1: "procs s1 b = Some (?pby\<lparr>state := proc_state_blocked_reading, idx := k\<rparr>)"
      and sb1: "\<And>r. r \<noteq> b \<Longrightarrow> same_but_idx (procs ?sy r) (procs s1 r)"
      and fr1: "sched_frame ?sy s1"
      and mv1: "moved ?sy (Some Running_procs) (Some Blocked_procs) s1"
      by auto
    obtain pb1 :: rust_proc where
      ret: "upcall_return s1 b = Inr (s1\<lparr>procs := (procs s1)(b \<mapsto> pb1)\<rparr>)"
      and pb1: "state pb1 = proc_state_blocked_reading" "idx pb1 = k"
        "upcall_args pb1 = y_args y"
      using b1 by (simp add: upcall_return_def)
    have "proc_vec_inv (s1\<lparr>procs := (procs s1)(b \<mapsto> pb1)\<rparr>)"
      by (rule proc_vec_inv_rec_upd [OF inv1 b1]) (simp_all add: pb1)
    moreover have "same_but_idx (procs s r) (procs s1 r)" if "r \<noteq> b" for r
      using sb1 [OF that] that by simp
    ultimately show ?case
      unfolding ret using el1 sched_frameD(2,3) [OF fr1] pb1 mv1 by simp
  qed
qed


lemma run_send_queues:
  fixes pa pb :: rust_proc and ch :: rust_chan and po :: rust_port
  assumes inv: "proc_vec_inv s" and a: "procs s a = Some pa"
    and ra: "a \<in> vec_elems (running_procs s)"
    and ch: "chans s c = Some ch" "chan_port ch = P" "\<not> queued ch" and c: "c \<noteq> 0" and P: "P \<noteq> 0"
    and po: "ports s P = Some po" "port_proc po = b"
    and wok: "writers_ok s P" and wv: "init (writers po) < INIT_PTR_VEC_SZ"
      "c \<notin> vec_elems (writers po)"
    and b: "procs s b = Some pb" and stb: "state pb \<noteq> proc_state_blocked_reading"
    and ne: "a \<noteq> b"
    and room: "init (blocked_procs s) < INIT_PTR_VEC_SZ"
    and y: "y_state y = proc_state_calling_c" "y_code y = upcall_code_send" "y_args y 0 = c"
  shows "returns (run_proc s a y)
     (\<lambda>s1. proc_vec_inv s1 \<and> sched_elems s1 = sched_elems s
        \<and> (\<exists>pa1. procs s1 a = Some pa1 \<and> state pa1 = proc_state_blocked_writing
              \<and> upcall_args pa1 = y_args y)
        \<and> (\<forall>r. r \<noteq> a \<longrightarrow> same_but_idx (procs s r) (procs s1 r))
        \<and> (\<exists>ch1. chans s1 c = Some ch1 \<and> chan_idx ch1 = init (writers po)
              \<and> chan_proc ch1 = a \<and> queued ch1)
        \<and> (\<exists>po1. ports s1 P = Some po1 \<and> port_proc po1 = b
              \<and> init (writers po1) = init (writers po) + 1
              \<and> data (writers po1) (init (writers po)) = Some c)
        \<and> writers_ok s1 P
        \<and> moved s (Some Running_procs) (Some Blocked_procs) s1)"
proof -
  note cl = running_elem_class [OF inv ra a]
  note w = writers_okD [OF wok po(1)]
  let ?sy = "enter_proc s a pa y"
  let ?pay = "pa\<lparr>state := y_state y, upcall_code := y_code y, upcall_args := y_args y,
                sp := y_sp y\<rparr>"
  have invy: "proc_vec_inv ?sy" by (rule enter_proc_inv [OF inv a]) (simp add: y cl)
  have ay: "procs ?sy a = Some ?pay" by simp
  have sty: "state ?pay = proc_state_calling_c" by (simp add: y)
  have regy: "a \<in> sched_elems ?sy" using cl(2) by simp
  have poy: "ports ?sy P = Some po" and chy: "chans ?sy c = Some ch"
    and pby: "procs ?sy b = Some pb"
    using po ch b ne by simp_all
  have roomy: "init (blocked_procs ?sy) < INIT_PTR_VEC_SZ" using room by simp
  note up = upcall_send_queues
    [OF invy ay sty regy chy ch(2,3) c P poy po(2) w(2) wv(1) pby stb ne roomy]
  show ?thesis
    unfolding run_proc_send_eq [OF a y(1,2)] y(3)
  proof (rule returns_bindE [OF up], goal_cases)
    case (1 s1)
    let ?W = "(writers po)\<lparr>data := (data (writers po))(init (writers po) \<mapsto> c),
                init := init (writers po) + 1\<rparr>"
    let ?ch1 = "ch\<lparr>chan_proc := a, chan_idx := init (writers po), queued := True\<rparr>"
    from 1 obtain k where
      a1: "procs s1 a = Some (?pay\<lparr>state := proc_state_blocked_writing, idx := k\<rparr>)"
      and sb1: "\<And>r. r \<noteq> a \<Longrightarrow> same_but_idx (procs ?sy r) (procs s1 r)"
      and inv1: "proc_vec_inv s1" and el1: "sched_elems s1 = sched_elems ?sy"
      and c1: "chans s1 = (chans ?sy)(c \<mapsto> ?ch1)"
      and p1: "ports s1 = (ports ?sy)(P \<mapsto> po\<lparr>writers := ?W\<rparr>)"
      and mv1: "moved ?sy (Some Running_procs) (Some Blocked_procs) s1"
      by auto
    obtain pa1 :: rust_proc where
      ret: "upcall_return s1 a = Inr (s1\<lparr>procs := (procs s1)(a \<mapsto> pa1)\<rparr>)"
      and pa1: "state pa1 = proc_state_blocked_writing" "idx pa1 = k"
        "upcall_args pa1 = y_args y"
      using a1 by (simp add: upcall_return_def)
    let ?s2 = "s1\<lparr>procs := (procs s1)(a \<mapsto> pa1)\<rparr>"
    have "proc_vec_inv ?s2"
      by (rule proc_vec_inv_rec_upd [OF inv1 a1]) (simp_all add: pa1)
    moreover have "same_but_idx (procs s r) (procs s1 r)" if "r \<noteq> a" for r
      using sb1 [OF that] that by simp
    moreover have "writers_ok ?s2 P"
    proof (rule writers_okI)
      show "ports ?s2 P = Some (po\<lparr>writers := ?W\<rparr>)" using p1 by simp
      show "init (writers (po\<lparr>writers := ?W\<rparr>)) \<le> alloc (writers (po\<lparr>writers := ?W\<rparr>))"
        using wv(1) w(2) by simp
      show "alloc (writers (po\<lparr>writers := ?W\<rparr>)) = INIT_PTR_VEC_SZ" using w(2) by simp
      fix i assume "i < init (writers (po\<lparr>writers := ?W\<rparr>))"
      then have i': "i < Suc (init (writers po))" by simp
      show "\<exists>c' ch'. data (writers (po\<lparr>writers := ?W\<rparr>)) i = Some c'
              \<and> chans ?s2 c' = Some ch' \<and> chan_idx ch' = i"
      proof (cases "i = init (writers po)")
        case True
        then show ?thesis using c1 by simp
      next
        case False
        with i' have i: "i < init (writers po)" by simp
        from w(3) [OF i] obtain ci and chi :: rust_chan where
          ci: "data (writers po) i = Some ci" "chans s ci = Some chi" "chan_idx chi = i"
          by blast
        from i ci(1) wv(2) have "ci \<noteq> c" by (auto simp: vec_elems_def)
        with ci False show ?thesis using c1 by simp
      qed
    qed
    ultimately show ?case
      unfolding ret using el1 c1 p1 po(2) pa1 mv1 by simp
  qed
qed


section \<open>C1: a send and a receive that meet\<close>




end
